theory Spec2Isabelle
  imports Complex_Main
begin

section \<open>Die scan calculator: the data model\<close>

text \<open>
  The calculator of \<^verbatim>\<open>die-scan-calculator-cli.ts\<close> works on JavaScript numbers, and
  it is embedded twice. \<open>calc\<close> reads the formulas of the source over the exact reals,
  as the specification writes them: rounding, overflow to \<^verbatim>\<open>Infinity\<close>, underflow and
  \<^verbatim>\<open>NaN\<close> are absent from it. It carries the statements that do not turn on rounding.
  \<open>calc64\<close>, further below, is the same function in binary64 arithmetic; the statements
  that rounding decides are made about it.

  In the exact embedding a zero divisor gives \<open>0\<close> where JavaScript gives
  \<^verbatim>\<open>Infinity\<close> or \<^verbatim>\<open>NaN\<close>; the predicate \<open>divisors_nonzero\<close> below names every
  divisor of \<open>calc\<close>, and every statement about the value of a field of \<open>calc\<close> is made
  under hypotheses that keep the divisors it depends on away from zero.
\<close>

record Inputs =
  widthMm :: real
  lengthMm :: real
  dpi :: real
  sensorPx :: real
  pixelPitchUm :: real
  wdMm :: real
  speedMmS :: real
  overlap :: real
  cameras :: real
  json :: bool

record Results =
  pixelSizeObjMm :: real
  eqDpi :: real
  pxNeededAcross :: real
  pxNeededWithMargin :: real
  usablePxPerCam :: real
  camsRequired :: real
  fovPerCamMm :: real
  sensorLengthMm :: real
  magnification :: real
  focalLengthMm :: real
  linePitchMm :: real
  linesNeeded :: real
  lineRateHz :: real

section \<open>The calculator\<close>

definition mmPerInch :: real where
  "mmPerInch = 25.4"

text \<open>\<^verbatim>\<open>Math.ceil\<close>, whose result is again a number.\<close>

definition Math_ceil :: "real \<Rightarrow> real" where
  "Math_ceil x = of_int \<lceil>x\<rceil>"

text \<open>
  The operator \<^verbatim>\<open>||\<close> on two numbers: the left operand when it is truthy (for a number:
  not zero, and not \<^verbatim>\<open>NaN\<close>, which no real is), the right operand otherwise.
\<close>

definition js_or :: "real \<Rightarrow> real \<Rightarrow> real" where
  "js_or a b = (if a \<noteq> 0 then a else b)"

definition calc :: "Inputs \<Rightarrow> Results" where
  "calc inputs =
    (let pixelSizeObjMm = mmPerInch / dpi inputs;
         pxNeededAcross = widthMm inputs / pixelSizeObjMm;
         pxNeededWithMargin = pxNeededAcross * (1 + overlap inputs);
         camsRequired = Math_ceil (pxNeededWithMargin / (sensorPx inputs * (1 - overlap inputs)));
         camsUsed = js_or (cameras inputs) camsRequired;
         usablePxPerCam = sensorPx inputs;
         fovPerCamMm = (widthMm inputs * (1 + overlap inputs)) / camsUsed;
         sensorLengthMm = sensorPx inputs * (pixelPitchUm inputs / 1000);
         magnification = sensorLengthMm / fovPerCamMm;
         focalLengthMm = (magnification * wdMm inputs) / (1 + magnification);
         linePitchMm = pixelSizeObjMm;
         linesNeeded = lengthMm inputs / linePitchMm;
         lineRateHz = speedMmS inputs / linePitchMm;
         eqDpi = mmPerInch / pixelSizeObjMm
     in \<lparr> pixelSizeObjMm = pixelSizeObjMm,
          eqDpi = eqDpi,
          pxNeededAcross = pxNeededAcross,
          pxNeededWithMargin = pxNeededWithMargin,
          usablePxPerCam = usablePxPerCam,
          camsRequired = camsRequired,
          fovPerCamMm = fovPerCamMm,
          sensorLengthMm = sensorLengthMm,
          magnification = magnification,
          focalLengthMm = focalLengthMm,
          linePitchMm = linePitchMm,
          linesNeeded = linesNeeded,
          lineRateHz = lineRateHz \<rparr>)"

text \<open>
  The camera count that the formulas after \<^verbatim>\<open>camsRequired\<close> use. It is a local constant
  of \<^verbatim>\<open>calc\<close> and not a field of the result, so it is read off the input and the result.
\<close>

definition camsUsed :: "Inputs \<Rightarrow> real" where
  "camsUsed inputs = js_or (cameras inputs) (camsRequired (calc inputs))"

text \<open>The constraints on \<^verbatim>\<open>Inputs\<close> that the specification lists in its data model.\<close>

definition is_integer :: "real \<Rightarrow> bool" where
  "is_integer x = (of_int \<lfloor>x\<rfloor> = x)"

definition valid_inputs :: "Inputs \<Rightarrow> bool" where
  "valid_inputs i \<longleftrightarrow>
     0 < widthMm i \<and> 0 < lengthMm i \<and> 0 < dpi i \<and>
     0 < sensorPx i \<and> is_integer (sensorPx i) \<and>
     0 < pixelPitchUm i \<and> 0 < wdMm i \<and> 0 < speedMmS i \<and>
     0 \<le> overlap i \<and> overlap i < 1 \<and>
     0 \<le> cameras i \<and> is_integer (cameras i)"

text \<open>Every divisor that \<^verbatim>\<open>calc\<close> divides by, in the order of the source.\<close>

definition divisors_nonzero :: "Inputs \<Rightarrow> bool" where
  "divisors_nonzero i \<longleftrightarrow>
     dpi i \<noteq> 0 \<and>
     pixelSizeObjMm (calc i) \<noteq> 0 \<and>
     sensorPx i * (1 - overlap i) \<noteq> 0 \<and>
     camsUsed i \<noteq> 0 \<and>
     fovPerCamMm (calc i) \<noteq> 0 \<and>
     1 + magnification (calc i) \<noteq> 0 \<and>
     linePitchMm (calc i) \<noteq> 0"

text \<open>The inputs of the documented example.\<close>

definition example_inputs :: Inputs where
  "example_inputs =
    \<lparr> widthMm = 1200, lengthMm = 1200, dpi = 250, sensorPx = 8192, pixelPitchUm = 7,
      wdMm = 600, speedMmS = 200, overlap = 0.12, cameras = 2, json = False \<rparr>"

section \<open>Gathering the inputs: \<^verbatim>\<open>main\<close>\<close>

text \<open>
  The command line as \<^verbatim>\<open>yargs\<close> sees it: each numeric option is either absent or given
  once with a numeric value, and \<^verbatim>\<open>--json\<close> is absent or given. An option whose text is
  not a number (which \<^verbatim>\<open>yargs\<close> turns into \<^verbatim>\<open>NaN\<close>) is outside this model.
\<close>

record CommandLine =
  opt_width_mm :: "real option"
  opt_length_mm :: "real option"
  opt_dpi :: "real option"
  opt_sensor_px :: "real option"
  opt_pixel_pitch_um :: "real option"
  opt_wd_mm :: "real option"
  opt_speed_mm_s :: "real option"
  opt_overlap :: "real option"
  opt_cameras :: "real option"
  opt_json :: "bool option"

text \<open>\<^verbatim>\<open>process.argv.slice(2).length === 0\<close>: nothing at all was passed.\<close>

definition noFlags :: "CommandLine \<Rightarrow> bool" where
  "noFlags cl \<longleftrightarrow>
     opt_width_mm cl = None \<and> opt_length_mm cl = None \<and> opt_dpi cl = None \<and>
     opt_sensor_px cl = None \<and> opt_pixel_pitch_um cl = None \<and> opt_wd_mm cl = None \<and>
     opt_speed_mm_s cl = None \<and> opt_overlap cl = None \<and> opt_cameras cl = None \<and>
     opt_json cl = None"

text \<open>An option of \<^verbatim>\<open>yargs\<close> with a default: the value given, the default otherwise.\<close>

definition option_default :: "'a \<Rightarrow> 'a option \<Rightarrow> 'a" where
  "option_default d v = (case v of None \<Rightarrow> d | Some x \<Rightarrow> x)"

text \<open>
  The \<^verbatim>\<open>Inputs\<close> that \<^verbatim>\<open>main\<close> builds from the parsed options. The values go from
  \<^verbatim>\<open>argv\<close> into the fields as they are: the source checks none of them.
\<close>

definition inputs_of_argv :: "CommandLine \<Rightarrow> Inputs" where
  "inputs_of_argv cl =
    \<lparr> widthMm = option_default 1200 (opt_width_mm cl),
      lengthMm = option_default 1200 (opt_length_mm cl),
      dpi = option_default 250 (opt_dpi cl),
      sensorPx = option_default 8192 (opt_sensor_px cl),
      pixelPitchUm = option_default 7 (opt_pixel_pitch_um cl),
      wdMm = option_default 600 (opt_wd_mm cl),
      speedMmS = option_default 200 (opt_speed_mm_s cl),
      overlap = option_default 0.12 (opt_overlap cl),
      cameras = option_default 0 (opt_cameras cl),
      json = option_default False (opt_json cl) \<rparr>"

text \<open>
  The interactive questions, by their \<^verbatim>\<open>name\<close>, and the keys of the message bundle
  \<^verbatim>\<open>t.validation\<close>.
\<close>

datatype question =
  Q_widthMm | Q_lengthMm | Q_dpi | Q_sensorPx | Q_pixelPitchUm | Q_wdMm | Q_speedMmS
  | Q_overlap | Q_cameras

datatype validation_message = positiveNumber | positiveInteger | fraction | nonNegative

text \<open>
  What a \<^verbatim>\<open>validate\<close> callback returns: \<^verbatim>\<open>true\<close>, or the message that makes the prompt
  ask again.
\<close>

datatype verdict = Accepted | Rejected validation_message

text \<open>
  A typed answer \<^verbatim>\<open>v\<close> is represented by \<^verbatim>\<open>Number(v)\<close>: \<open>None\<close> stands for
  \<^verbatim>\<open>NaN\<close>. The three shapes of check that the nine callbacks have:
  \<^verbatim>\<open>(!isNaN(Number(v)) && Number(v) > 0) || msg\<close>,
  \<^verbatim>\<open>(!isNaN(Number(v)) && Number(v) >= 0 && Number(v) < 1) || msg\<close> and
  \<^verbatim>\<open>(!isNaN(Number(v)) && Number(v) >= 0) || msg\<close>.
\<close>

definition check_positive :: "validation_message \<Rightarrow> real option \<Rightarrow> verdict" where
  "check_positive msg v =
     (case v of None \<Rightarrow> Rejected msg
      | Some x \<Rightarrow> if x > 0 then Accepted else Rejected msg)"

definition check_fraction :: "validation_message \<Rightarrow> real option \<Rightarrow> verdict" where
  "check_fraction msg v =
     (case v of None \<Rightarrow> Rejected msg
      | Some x \<Rightarrow> if x \<ge> 0 \<and> x < 1 then Accepted else Rejected msg)"

definition check_nonNegative :: "validation_message \<Rightarrow> real option \<Rightarrow> verdict" where
  "check_nonNegative msg v =
     (case v of None \<Rightarrow> Rejected msg
      | Some x \<Rightarrow> if x \<ge> 0 then Accepted else Rejected msg)"

fun validate :: "question \<Rightarrow> real option \<Rightarrow> verdict" where
  "validate Q_widthMm v = check_positive positiveNumber v"
| "validate Q_lengthMm v = check_positive positiveNumber v"
| "validate Q_dpi v = check_positive positiveNumber v"
| "validate Q_sensorPx v = check_positive positiveInteger v"
| "validate Q_pixelPitchUm v = check_positive positiveNumber v"
| "validate Q_wdMm v = check_positive positiveNumber v"
| "validate Q_speedMmS v = check_positive positiveNumber v"
| "validate Q_overlap v = check_fraction fraction v"
| "validate Q_cameras v = check_nonNegative nonNegative v"

definition questions :: "question list" where
  "questions =
     [Q_widthMm, Q_lengthMm, Q_dpi, Q_sensorPx, Q_pixelPitchUm, Q_wdMm, Q_speedMmS,
      Q_overlap, Q_cameras]"

text \<open>
  The prompt library asks one question until an answer passes its \<^verbatim>\<open>validate\<close>. The
  user is a list of the answers submitted, in order; when it is used up the user has
  aborted the prompt, which the library reports by rejecting the promise.
\<close>

fun ask :: "question \<Rightarrow> real option list \<Rightarrow> (real option \<times> real option list) option" where
  "ask q [] = None"
| "ask q (v # vs) = (if validate q v = Accepted then Some (v, vs) else ask q vs)"

fun prompt :: "question list \<Rightarrow> real option list \<Rightarrow> (question \<times> real option) list option" where
  "prompt [] vs = Some []"
| "prompt (q # qs) vs =
     (case ask q vs of
        None \<Rightarrow> None
      | Some (v, vs') \<Rightarrow>
          (case prompt qs vs' of
             None \<Rightarrow> None
           | Some answers \<Rightarrow> Some ((q, v) # answers)))"

text \<open>
  \<^verbatim>\<open>inputs = { ...inputs, ...numericAnswers }\<close>: every answer overwrites the field of its
  name. An answer that is \<^verbatim>\<open>NaN\<close> has no counterpart in \<open>Inputs\<close>, so the merge is
  partial.
\<close>

fun set_field :: "question \<Rightarrow> real \<Rightarrow> Inputs \<Rightarrow> Inputs" where
  "set_field Q_widthMm x i = i\<lparr>widthMm := x\<rparr>"
| "set_field Q_lengthMm x i = i\<lparr>lengthMm := x\<rparr>"
| "set_field Q_dpi x i = i\<lparr>dpi := x\<rparr>"
| "set_field Q_sensorPx x i = i\<lparr>sensorPx := x\<rparr>"
| "set_field Q_pixelPitchUm x i = i\<lparr>pixelPitchUm := x\<rparr>"
| "set_field Q_wdMm x i = i\<lparr>wdMm := x\<rparr>"
| "set_field Q_speedMmS x i = i\<lparr>speedMmS := x\<rparr>"
| "set_field Q_overlap x i = i\<lparr>overlap := x\<rparr>"
| "set_field Q_cameras x i = i\<lparr>cameras := x\<rparr>"

fun merge :: "Inputs \<Rightarrow> (question \<times> real option) list \<Rightarrow> Inputs option" where
  "merge i [] = Some i"
| "merge i ((q, None) # answers) = None"
| "merge i ((q, Some x) # answers) = merge (set_field q x i) answers"

datatype lang = en | tr

text \<open>The interactive user: the language chosen (or the prompt aborted) and the answers.\<close>

record Session =
  langChoice :: "lang option"
  typed :: "real option list"

text \<open>
  What a run of \<^verbatim>\<open>main\<close> comes to: it returns after the cancellation notice, or it
  calls \<^verbatim>\<open>calc\<close> on some inputs and presents the result. \<open>CalledWithNaN\<close> is a call of
  \<^verbatim>\<open>calc\<close> on inputs with a \<^verbatim>\<open>NaN\<close> field, which \<open>Inputs\<close> cannot hold.
\<close>

datatype outcome = Cancelled | Called Inputs Results | CalledWithNaN

definition main :: "CommandLine \<Rightarrow> Session \<Rightarrow> outcome" where
  "main cl s =
    (if noFlags cl then
       (case langChoice s of
          None \<Rightarrow> Cancelled
        | Some l \<Rightarrow>
            (case prompt questions (typed s) of
               None \<Rightarrow> Cancelled
             | Some numericAnswers \<Rightarrow>
                 (case merge (inputs_of_argv cl) numericAnswers of
                    None \<Rightarrow> CalledWithNaN
                  | Some inputs \<Rightarrow> Called inputs (calc inputs))))
     else Called (inputs_of_argv cl) (calc (inputs_of_argv cl)))"

text \<open>The command line with nothing on it, and the one that is just \<^verbatim>\<open>--dpi 0\<close>.\<close>

definition no_arguments :: CommandLine where
  "no_arguments =
    \<lparr> opt_width_mm = None, opt_length_mm = None, opt_dpi = None, opt_sensor_px = None,
      opt_pixel_pitch_um = None, opt_wd_mm = None, opt_speed_mm_s = None,
      opt_overlap = None, opt_cameras = None, opt_json = None \<rparr>"

definition dpi_zero_arguments :: CommandLine where
  "dpi_zero_arguments = no_arguments\<lparr>opt_dpi := Some 0\<rparr>"

text \<open>What the nine prompts check, read as a predicate on the inputs they let through.\<close>

definition prompt_checked :: "Inputs \<Rightarrow> bool" where
  "prompt_checked i \<longleftrightarrow>
     0 < widthMm i \<and> 0 < lengthMm i \<and> 0 < dpi i \<and> 0 < sensorPx i \<and>
     0 < pixelPitchUm i \<and> 0 < wdMm i \<and> 0 < speedMmS i \<and>
     0 \<le> overlap i \<and> overlap i < 1 \<and> 0 \<le> cameras i"

section \<open>The calculator in binary64\<close>

text \<open>
  A second embedding of \<^verbatim>\<open>calc\<close>, with the arithmetic of JavaScript numbers: every
  operation returns the binary64 number nearest to the exact result, ties going to the
  even significand, with overflow to an infinity, gradual underflow, signed zeros and
  \<^verbatim>\<open>NaN\<close>. It is the embedding used wherever a statement depends on rounding.

  First the rounding of a real to the nearest integer, ties to even.
\<close>

definition rne :: "real \<Rightarrow> int" where
  "rne r =
     (let f = \<lfloor>r\<rfloor>; d = r - of_int f
      in if d < 1 / 2 then f else if 1 / 2 < d then f + 1 else if even f then f else f + 1)"

text \<open>
  The binary exponent of \<open>a\<close>: the largest \<open>e\<close> with \<open>2 powi e \<le> a\<close>, not below the
  exponent \<open>-1022\<close> of the subnormal numbers. The search goes upwards from \<open>-1022\<close> and
  stops at \<open>1076\<close>; from \<open>2 powi 1024\<close> on the rounded result is an infinity whatever
  the exponent is.
\<close>

fun expo_search :: "nat \<Rightarrow> int \<Rightarrow> real \<Rightarrow> int" where
  "expo_search 0 e a = e"
| "expo_search (Suc n) e a = (if 2 powi (e + 1) \<le> a then expo_search n (e + 1) a else e)"

definition expo :: "real \<Rightarrow> int" where
  "expo x = expo_search 2098 (- 1022) \<bar>x\<bar>"

text \<open>
  The spacing of the binary64 numbers around \<open>x\<close> (53 significant bits), and the
  multiple of that spacing nearest to \<open>x\<close>.
\<close>

definition quantum :: "real \<Rightarrow> real" where
  "quantum x = 2 powi (expo x - 52)"

definition nearest :: "real \<Rightarrow> real" where
  "nearest x = of_int (rne (x / quantum x)) * quantum x"

text \<open>
  A JavaScript number. \<open>Fin x\<close> is the finite number of value \<open>x\<close>, with \<open>Fin 0\<close> the
  positive zero; \<open>NegZero\<close> is \<^verbatim>\<open>-0\<close>.
\<close>

datatype number = Fin real | NegZero | PosInf | NegInf | NaN

fun negative :: "number \<Rightarrow> bool" where
  "negative (Fin x) = (x < 0)"
| "negative NegZero = True"
| "negative PosInf = False"
| "negative NegInf = True"
| "negative NaN = False"

fun value_of :: "number \<Rightarrow> real" where
  "value_of (Fin x) = x"
| "value_of NegZero = 0"
| "value_of PosInf = 0"
| "value_of NegInf = 0"
| "value_of NaN = 0"

fun is_zero :: "number \<Rightarrow> bool" where
  "is_zero (Fin x) = (x = 0)"
| "is_zero NegZero = True"
| "is_zero PosInf = False"
| "is_zero NegInf = False"
| "is_zero NaN = False"

fun is_infinite :: "number \<Rightarrow> bool" where
  "is_infinite (Fin x) = False"
| "is_infinite NegZero = False"
| "is_infinite PosInf = True"
| "is_infinite NegInf = True"
| "is_infinite NaN = False"

definition infinity :: "bool \<Rightarrow> number" where
  "infinity neg = (if neg then NegInf else PosInf)"

definition zero :: "bool \<Rightarrow> number" where
  "zero neg = (if neg then NegZero else Fin 0)"

text \<open>
  The number that an operation returns when its exact result is \<open>x\<close>. \<open>neg\<close> is the
  sign that an exactly zero result takes; a result that underflows to zero keeps the sign
  of \<open>x\<close>.
\<close>

definition fl :: "bool \<Rightarrow> real \<Rightarrow> number" where
  "fl neg x =
     (let r = nearest x
      in if 2 powi 1024 \<le> \<bar>r\<bar> then infinity (x < 0)
         else if r = 0 then zero (if x = 0 then neg else x < 0)
         else Fin r)"

text \<open>A decimal literal of the source, or a decimal typed by the user, as a number.\<close>

definition lit :: "real \<Rightarrow> number" where
  "lit x = fl False x"

definition num_neg :: "number \<Rightarrow> number" where
  "num_neg a =
     (case a of Fin x \<Rightarrow> if x = 0 then NegZero else Fin (- x)
      | NegZero \<Rightarrow> Fin 0 | PosInf \<Rightarrow> NegInf | NegInf \<Rightarrow> PosInf | NaN \<Rightarrow> NaN)"

text \<open>The operators \<^verbatim>\<open>+\<close>, \<^verbatim>\<open>-\<close>, \<^verbatim>\<open>*\<close> and \<^verbatim>\<open>/\<close> on numbers.\<close>

definition num_add :: "number \<Rightarrow> number \<Rightarrow> number" where
  "num_add a b =
     (if a = NaN \<or> b = NaN then NaN
      else if is_infinite a then (if is_infinite b \<and> negative a \<noteq> negative b then NaN else a)
      else if is_infinite b then b
      else fl (negative a \<and> negative b) (value_of a + value_of b))"

definition num_sub :: "number \<Rightarrow> number \<Rightarrow> number" where
  "num_sub a b = num_add a (num_neg b)"

definition num_mul :: "number \<Rightarrow> number \<Rightarrow> number" where
  "num_mul a b =
     (if a = NaN \<or> b = NaN then NaN
      else if is_infinite a \<or> is_infinite b then
        (if is_zero a \<or> is_zero b then NaN else infinity (negative a \<noteq> negative b))
      else fl (negative a \<noteq> negative b) (value_of a * value_of b))"

definition num_div :: "number \<Rightarrow> number \<Rightarrow> number" where
  "num_div a b =
     (if a = NaN \<or> b = NaN then NaN
      else if is_infinite a then
        (if is_infinite b then NaN else infinity (negative a \<noteq> negative b))
      else if is_infinite b then zero (negative a \<noteq> negative b)
      else if is_zero b then
        (if is_zero a then NaN else infinity (negative a \<noteq> negative b))
      else fl (negative a \<noteq> negative b) (value_of a / value_of b))"

text \<open>
  \<^verbatim>\<open>Math.ceil\<close>: the ceiling of a finite number is a binary64 number itself, so nothing
  is rounded; a number strictly between \<open>-1\<close> and \<open>0\<close> gives \<^verbatim>\<open>-0\<close>.
\<close>

definition num_ceil :: "number \<Rightarrow> number" where
  "num_ceil a =
     (case a of Fin x \<Rightarrow> if \<lceil>x\<rceil> = 0 \<and> x < 0 then NegZero else Fin (of_int \<lceil>x\<rceil>)
      | NegZero \<Rightarrow> NegZero | PosInf \<Rightarrow> PosInf | NegInf \<Rightarrow> NegInf | NaN \<Rightarrow> NaN)"

text \<open>The operator \<^verbatim>\<open>||\<close>: a number is falsy when it is a zero or \<^verbatim>\<open>NaN\<close>.\<close>

definition num_or :: "number \<Rightarrow> number \<Rightarrow> number" where
  "num_or a b = (if a = NaN \<or> is_zero a then b else a)"

record Inputs64 =
  widthMm64 :: number
  lengthMm64 :: number
  dpi64 :: number
  sensorPx64 :: number
  pixelPitchUm64 :: number
  wdMm64 :: number
  speedMmS64 :: number
  overlap64 :: number
  cameras64 :: number
  json64 :: bool

record Results64 =
  pixelSizeObjMm64 :: number
  eqDpi64 :: number
  pxNeededAcross64 :: number
  pxNeededWithMargin64 :: number
  usablePxPerCam64 :: number
  camsRequired64 :: number
  fovPerCamMm64 :: number
  sensorLengthMm64 :: number
  magnification64 :: number
  focalLengthMm64 :: number
  linePitchMm64 :: number
  linesNeeded64 :: number
  lineRateHz64 :: number

definition mmPerInch64 :: number where
  "mmPerInch64 = lit 25.4"

definition calc64 :: "Inputs64 \<Rightarrow> Results64" where
  "calc64 inputs =
    (let pixelSizeObjMm = num_div mmPerInch64 (dpi64 inputs);
         pxNeededAcross = num_div (widthMm64 inputs) pixelSizeObjMm;
         pxNeededWithMargin = num_mul pxNeededAcross (num_add (Fin 1) (overlap64 inputs));
         camsRequired =
           num_ceil
             (num_div pxNeededWithMargin
                (num_mul (sensorPx64 inputs) (num_sub (Fin 1) (overlap64 inputs))));
         camsUsed = num_or (cameras64 inputs) camsRequired;
         usablePxPerCam = sensorPx64 inputs;
         fovPerCamMm =
           num_div (num_mul (widthMm64 inputs) (num_add (Fin 1) (overlap64 inputs))) camsUsed;
         sensorLengthMm =
           num_mul (sensorPx64 inputs) (num_div (pixelPitchUm64 inputs) (Fin 1000));
         magnification = num_div sensorLengthMm fovPerCamMm;
         focalLengthMm =
           num_div (num_mul magnification (wdMm64 inputs)) (num_add (Fin 1) magnification);
         linePitchMm = pixelSizeObjMm;
         linesNeeded = num_div (lengthMm64 inputs) linePitchMm;
         lineRateHz = num_div (speedMmS64 inputs) linePitchMm;
         eqDpi = num_div mmPerInch64 pixelSizeObjMm
     in \<lparr> pixelSizeObjMm64 = pixelSizeObjMm,
          eqDpi64 = eqDpi,
          pxNeededAcross64 = pxNeededAcross,
          pxNeededWithMargin64 = pxNeededWithMargin,
          usablePxPerCam64 = usablePxPerCam,
          camsRequired64 = camsRequired,
          fovPerCamMm64 = fovPerCamMm,
          sensorLengthMm64 = sensorLengthMm,
          magnification64 = magnification,
          focalLengthMm64 = focalLengthMm,
          linePitchMm64 = linePitchMm,
          linesNeeded64 = linesNeeded,
          lineRateHz64 = lineRateHz \<rparr>)"

text \<open>
  Two local values of \<^verbatim>\<open>calc\<close> that are not fields of the result: the quotient that
  \<^verbatim>\<open>Math.ceil\<close> is applied to, and the camera count used after it.
\<close>

definition quotient64 :: "Inputs64 \<Rightarrow> number" where
  "quotient64 inputs =
     num_div
       (num_mul (num_div (widthMm64 inputs) (num_div mmPerInch64 (dpi64 inputs)))
          (num_add (Fin 1) (overlap64 inputs)))
       (num_mul (sensorPx64 inputs) (num_sub (Fin 1) (overlap64 inputs)))"

definition camsUsed64 :: "Inputs64 \<Rightarrow> number" where
  "camsUsed64 inputs = num_or (cameras64 inputs) (camsRequired64 (calc64 inputs))"

text \<open>A finite number between two bounds.\<close>

definition in_interval :: "real \<Rightarrow> real \<Rightarrow> number \<Rightarrow> bool" where
  "in_interval lo hi n = (case n of Fin x \<Rightarrow> lo \<le> x \<and> x \<le> hi | _ \<Rightarrow> False)"

text \<open>
  Six inputs. The documented example; an ordinary input (width 3891.2 mm, 254 dpi, 6144
  pixels, overlap 0.05) on which rounding decides the camera count; the example with a
  subnormal dpi; an input with 2^60 cameras; an input with the width 2^1023; and an input
  with a pixel pitch of 1000 / 2^60.
\<close>

definition example_inputs64 :: Inputs64 where
  "example_inputs64 =
    \<lparr> widthMm64 = Fin 1200, lengthMm64 = Fin 1200, dpi64 = Fin 250, sensorPx64 = Fin 8192,
      pixelPitchUm64 = Fin 7, wdMm64 = Fin 600, speedMmS64 = Fin 200, overlap64 = lit 0.12,
      cameras64 = Fin 2, json64 = False \<rparr>"

definition rounding_inputs :: Inputs64 where
  "rounding_inputs =
    \<lparr> widthMm64 = lit 3891.2, lengthMm64 = Fin 1200, dpi64 = Fin 254, sensorPx64 = Fin 6144,
      pixelPitchUm64 = Fin 7, wdMm64 = Fin 600, speedMmS64 = Fin 200, overlap64 = lit 0.05,
      cameras64 = Fin 0, json64 = False \<rparr>"

definition tiny_dpi_inputs :: Inputs64 where
  "tiny_dpi_inputs =
    \<lparr> widthMm64 = Fin 1200, lengthMm64 = Fin 1200, dpi64 = Fin (2 powi (- 1024)),
      sensorPx64 = Fin 8192, pixelPitchUm64 = Fin 7, wdMm64 = Fin 600, speedMmS64 = Fin 200,
      overlap64 = Fin 0.125, cameras64 = Fin 2, json64 = False \<rparr>"

definition many_cameras_inputs :: Inputs64 where
  "many_cameras_inputs =
    \<lparr> widthMm64 = Fin 1024, lengthMm64 = Fin 1024, dpi64 = Fin 250, sensorPx64 = Fin 1024,
      pixelPitchUm64 = Fin 1000, wdMm64 = Fin 512, speedMmS64 = Fin 200, overlap64 = Fin 0,
      cameras64 = Fin (2 ^ 60), json64 = False \<rparr>"

definition huge_width_inputs :: Inputs64 where
  "huge_width_inputs =
    \<lparr> widthMm64 = Fin (2 powi 1023), lengthMm64 = Fin 1200, dpi64 = Fin (2 ^ 20),
      sensorPx64 = Fin 8192, pixelPitchUm64 = Fin 7, wdMm64 = Fin 600, speedMmS64 = Fin 200,
      overlap64 = Fin 0.125, cameras64 = Fin 0, json64 = False \<rparr>"

definition tiny_pitch_inputs :: Inputs64 where
  "tiny_pitch_inputs =
    \<lparr> widthMm64 = Fin 1024, lengthMm64 = Fin 1024, dpi64 = Fin 250, sensorPx64 = Fin 1,
      pixelPitchUm64 = Fin (1000 / 2 ^ 60), wdMm64 = Fin 512, speedMmS64 = Fin 200,
      overlap64 = Fin 0, cameras64 = Fin 1, json64 = False \<rparr>"

section \<open>Field-by-field reading of the result\<close>

lemma calc_pixelSizeObjMm: "pixelSizeObjMm (calc i) = mmPerInch / dpi i"
  by (simp only: calc_def Let_def Results.select_convs)

lemma calc_pxNeededAcross: "pxNeededAcross (calc i) = widthMm i / (mmPerInch / dpi i)"
  by (simp only: calc_def Let_def Results.select_convs)

lemma calc_pxNeededWithMargin:
  "pxNeededWithMargin (calc i) = pxNeededAcross (calc i) * (1 + overlap i)"
  by (simp only: calc_def Let_def Results.select_convs)

lemma calc_camsRequired:
  "camsRequired (calc i) =
     Math_ceil (pxNeededWithMargin (calc i) / (sensorPx i * (1 - overlap i)))"
  by (simp only: calc_def Let_def Results.select_convs)

lemma calc_fovPerCamMm:
  "fovPerCamMm (calc i) = (widthMm i * (1 + overlap i)) / camsUsed i"
  by (simp only: calc_def camsUsed_def Let_def Results.select_convs)

lemma calc_sensorLengthMm: "sensorLengthMm (calc i) = sensorPx i * (pixelPitchUm i / 1000)"
  by (simp only: calc_def Let_def Results.select_convs)

lemma calc_magnification:
  "magnification (calc i) = sensorLengthMm (calc i) / fovPerCamMm (calc i)"
  by (simp only: calc_def Let_def Results.select_convs)

lemma calc_focalLengthMm:
  "focalLengthMm (calc i) =
     (magnification (calc i) * wdMm i) / (1 + magnification (calc i))"
  by (simp only: calc_def Let_def Results.select_convs)

lemma calc_linePitchMm: "linePitchMm (calc i) = pixelSizeObjMm (calc i)"
  by (simp only: calc_def Let_def Results.select_convs)

lemma calc_linesNeeded: "linesNeeded (calc i) = lengthMm i / linePitchMm (calc i)"
  by (simp only: calc_def Let_def Results.select_convs)

lemma calc_lineRateHz: "lineRateHz (calc i) = speedMmS i / linePitchMm (calc i)"
  by (simp only: calc_def Let_def Results.select_convs)

lemma calc_eqDpi: "eqDpi (calc i) = mmPerInch / pixelSizeObjMm (calc i)"
  by (simp only: calc_def Let_def Results.select_convs)

lemma calc_usablePxPerCam: "usablePxPerCam (calc i) = sensorPx i"
  by (simp only: calc_def Let_def Results.select_convs)

section \<open>Signs and divisors\<close>

lemma mmPerInch_pos: "0 < mmPerInch"
  by (simp add: mmPerInch_def)

lemma pxNeededAcross_eq: "0 < dpi i \<Longrightarrow> pxNeededAcross (calc i) = widthMm i * dpi i / mmPerInch"
  by (simp add: calc_pxNeededAcross)

lemma pxNeededAcross_pos:
  assumes "0 < widthMm i" and "0 < dpi i"
  shows "0 < pxNeededAcross (calc i)"
  using assms mmPerInch_pos by (simp add: calc_pxNeededAcross)

lemma pxNeededWithMargin_pos:
  assumes "0 < widthMm i" and "0 < dpi i" and "0 \<le> overlap i"
  shows "0 < pxNeededWithMargin (calc i)"
  using pxNeededAcross_pos[OF assms(1,2)] assms(3)
  by (simp add: calc_pxNeededWithMargin)

lemma usable_pos:
  assumes "0 < sensorPx i" and "overlap i < 1"
  shows "0 < sensorPx i * (1 - overlap i)"
  using assms by simp

lemma quotient_pos:
  assumes "0 < widthMm i" and "0 < dpi i" and "0 < sensorPx i"
    and "0 \<le> overlap i" and "overlap i < 1"
  shows "0 < pxNeededWithMargin (calc i) / (sensorPx i * (1 - overlap i))"
  using pxNeededWithMargin_pos[OF assms(1,2,4)] usable_pos[OF assms(3,5)]
  by simp

lemma Math_ceil_ge_1:
  assumes "0 < x"
  shows "1 \<le> Math_ceil x"
proof -
  from assms have "0 < \<lceil>x\<rceil>" by simp
  then have "1 \<le> \<lceil>x\<rceil>" by linarith
  then show ?thesis unfolding Math_ceil_def by simp
qed

lemma Math_ceil_mono: "x \<le> y \<Longrightarrow> Math_ceil x \<le> Math_ceil y"
  by (simp add: Math_ceil_def ceiling_mono)

lemma camsRequired_pos:
  assumes "valid_inputs i"
  shows "1 \<le> camsRequired (calc i)"
proof -
  have "0 < pxNeededWithMargin (calc i) / (sensorPx i * (1 - overlap i))"
    using assms by (intro quotient_pos) (simp_all add: valid_inputs_def)
  then show ?thesis
    unfolding calc_camsRequired by (rule Math_ceil_ge_1)
qed

lemma camsUsed_pos:
  assumes "valid_inputs i"
  shows "0 < camsUsed i"
proof (cases "cameras i = 0")
  case True
  with camsRequired_pos[OF assms] show ?thesis
    by (simp add: camsUsed_def js_or_def)
next
  case False
  with assms show ?thesis
    by (simp add: camsUsed_def js_or_def valid_inputs_def)
qed

lemma fovPerCamMm_pos:
  assumes "valid_inputs i"
  shows "0 < fovPerCamMm (calc i)"
  using camsUsed_pos[OF assms] assms
  by (simp add: calc_fovPerCamMm valid_inputs_def)

lemma magnification_pos:
  assumes "valid_inputs i"
  shows "0 < magnification (calc i)"
  using fovPerCamMm_pos[OF assms] assms
  by (simp add: calc_magnification calc_sensorLengthMm valid_inputs_def)

text \<open>
  On inputs that meet the constraints no division of \<^verbatim>\<open>calc\<close> has a zero divisor, so the
  value HOL gives to \<open>x / 0\<close> plays no part there.
\<close>

lemma valid_inputs_divisors_nonzero:
  assumes "valid_inputs i"
  shows "divisors_nonzero i"
proof -
  have "0 < dpi i" "0 < sensorPx i" "overlap i < 1"
    using assms by (simp_all add: valid_inputs_def)
  moreover have "0 < camsUsed i" "0 < fovPerCamMm (calc i)" "0 < magnification (calc i)"
    using assms by (rule camsUsed_pos fovPerCamMm_pos magnification_pos)+
  ultimately show ?thesis
    by (simp add: divisors_nonzero_def calc_linePitchMm calc_pixelSizeObjMm mmPerInch_def)
qed

lemma example_inputs_valid: "valid_inputs example_inputs"
  by (simp add: valid_inputs_def example_inputs_def is_integer_def)

section \<open>The documented example\<close>

lemma example_camsRequired: "camsRequired (calc example_inputs) = 2"
proof -
  have "\<lceil>(1200 / (25.4 / 250) * (1 + 0.12)) / (8192 * (1 - 0.12)) :: real\<rceil> = 2"
    by (rule ceiling_unique) simp_all
  then show ?thesis
    by (simp add: calc_def Let_def example_inputs_def mmPerInch_def Math_ceil_def)
qed

text \<open>
  Claim C1. On the inputs of the documented example (width and length 1200 mm, 250 dpi,
  8192 sensor pixels of pitch 7 um, working distance 600 mm, speed 200 mm/s, overlap 0.12,
  2 cameras) \<^verbatim>\<open>calc\<close> returns pixelSizeObjMm 0.1016, camsRequired 2, fovPerCamMm 672.0 and
  sensorLengthMm 57.344, and every other stated figure is the returned value rounded to
  the digits shown: pxNeededAcross 11811, pxNeededWithMargin 13228, magnification 0.0853,
  focalLengthMm 47.2, linePitchMm 0.102, linesNeeded 11811, lineRateHz 1968.50.
\<close>

theorem example_scenario:
  "pixelSizeObjMm (calc example_inputs) = 0.1016 \<and>
   \<bar>pxNeededAcross (calc example_inputs) - 11811\<bar> \<le> 0.5 \<and>
   \<bar>pxNeededWithMargin (calc example_inputs) - 13228\<bar> \<le> 0.5 \<and>
   camsRequired (calc example_inputs) = 2 \<and>
   fovPerCamMm (calc example_inputs) = 672.0 \<and>
   sensorLengthMm (calc example_inputs) = 57.344 \<and>
   \<bar>magnification (calc example_inputs) - 0.0853\<bar> \<le> 0.00005 \<and>
   \<bar>focalLengthMm (calc example_inputs) - 47.2\<bar> \<le> 0.05 \<and>
   \<bar>linePitchMm (calc example_inputs) - 0.102\<bar> \<le> 0.0005 \<and>
   \<bar>linesNeeded (calc example_inputs) - 11811\<bar> \<le> 0.5 \<and>
   \<bar>lineRateHz (calc example_inputs) - 1968.50\<bar> \<le> 0.005"
  using example_camsRequired
  by (simp add: calc_def Let_def example_inputs_def mmPerInch_def js_or_def)

section \<open>The camera count in exact arithmetic\<close>



text \<open>
  Claim C4. For inputs that meet the constraints, the camera count used after
  camsRequired is the input cameras when that is positive and the computed camsRequired
  when it is 0; fovPerCamMm is the width times (1 + overlap) divided by that count, and
  the magnification is the sensor length divided by that field of view; camsRequired itself
  does not depend on the cameras field.
\<close>

theorem camsUsed_override:
  assumes "valid_inputs i"
  shows "camsUsed i = (if 0 < cameras i then cameras i else camsRequired (calc i)) \<and>
         fovPerCamMm (calc i) =
           (widthMm i * (1 + overlap i)) /
             (if 0 < cameras i then cameras i else camsRequired (calc i)) \<and>
         magnification (calc i) =
           sensorPx i * (pixelPitchUm i / 1000) /
             ((widthMm i * (1 + overlap i)) /
               (if 0 < cameras i then cameras i else camsRequired (calc i))) \<and>
         (\<forall>c. camsRequired (calc (i\<lparr>cameras := c\<rparr>)) = camsRequired (calc i))"
proof -
  have "0 \<le> cameras i"
    using assms by (simp add: valid_inputs_def)
  then have u: "camsUsed i = (if 0 < cameras i then cameras i else camsRequired (calc i))"
    by (auto simp add: camsUsed_def js_or_def)
  have r: "\<forall>c. camsRequired (calc (i\<lparr>cameras := c\<rparr>)) = camsRequired (calc i)"
    by (simp add: calc_camsRequired calc_pxNeededWithMargin calc_pxNeededAcross)
  have f: "fovPerCamMm (calc i) =
      (widthMm i * (1 + overlap i)) /
        (if 0 < cameras i then cameras i else camsRequired (calc i))"
    by (simp only: calc_fovPerCamMm u)
  have m: "magnification (calc i) =
      sensorPx i * (pixelPitchUm i / 1000) /
        ((widthMm i * (1 + overlap i)) /
          (if 0 < cameras i then cameras i else camsRequired (calc i)))"
    by (simp only: calc_magnification calc_sensorLengthMm f)
  from u f m r show ?thesis by blast
qed

theorem camsUsed_override_witness:
  "valid_inputs (example_inputs\<lparr>cameras := 3\<rparr>) \<and>
   camsRequired (calc (example_inputs\<lparr>cameras := 3\<rparr>)) = 2 \<and>
   camsUsed (example_inputs\<lparr>cameras := 3\<rparr>) = 3 \<and>
   fovPerCamMm (calc (example_inputs\<lparr>cameras := 3\<rparr>)) = 1200 * (1 + 0.12) / 3 \<and>
   valid_inputs (example_inputs\<lparr>cameras := 0\<rparr>) \<and>
   camsUsed (example_inputs\<lparr>cameras := 0\<rparr>) = 2 \<and>
   fovPerCamMm (calc (example_inputs\<lparr>cameras := 0\<rparr>)) = 1200 * (1 + 0.12) / 2"
proof -
  have v3: "valid_inputs (example_inputs\<lparr>cameras := 3\<rparr>)"
    and v0: "valid_inputs (example_inputs\<lparr>cameras := 0\<rparr>)"
    by (simp_all add: valid_inputs_def example_inputs_def is_integer_def)
  have same: "example_inputs\<lparr>cameras := 3, cameras := 2\<rparr> = example_inputs"
    "example_inputs\<lparr>cameras := 0, cameras := 2\<rparr> = example_inputs"
    by (simp_all add: example_inputs_def)
  from camsUsed_override[OF v3] have r3:
    "camsRequired (calc (example_inputs\<lparr>cameras := 3\<rparr>)) = 2"
    using example_camsRequired same(1) by metis
  from camsUsed_override[OF v0] have r0:
    "camsRequired (calc (example_inputs\<lparr>cameras := 0\<rparr>)) = 2"
    using example_camsRequired same(2) by metis
  have f: "cameras (example_inputs\<lparr>cameras := 3\<rparr>) = 3"
    "cameras (example_inputs\<lparr>cameras := 0\<rparr>) = 0"
    "widthMm (example_inputs\<lparr>cameras := 3\<rparr>) = 1200"
    "widthMm (example_inputs\<lparr>cameras := 0\<rparr>) = 1200"
    "overlap (example_inputs\<lparr>cameras := 3\<rparr>) = 0.12"
    "overlap (example_inputs\<lparr>cameras := 0\<rparr>) = 0.12"
    by (simp_all add: example_inputs_def)
  from camsUsed_override[OF v3] camsUsed_override[OF v0] v3 v0 r3 r0 show ?thesis
    by (simp add: f)
qed

section \<open>Monotonicity in the width\<close>

text \<open>
  Claim C7. For two inputs that meet the constraints and agree on every field except
  widthMm, the one with the larger widthMm has pxNeededAcross, pxNeededWithMargin and
  camsRequired each at least as large as the other's.
\<close>

theorem calc_mono_widthMm:
  assumes "valid_inputs i" and "valid_inputs j" and "j = i\<lparr>widthMm := widthMm j\<rparr>"
    and "widthMm i \<le> widthMm j"
  shows "pxNeededAcross (calc i) \<le> pxNeededAcross (calc j) \<and>
         pxNeededWithMargin (calc i) \<le> pxNeededWithMargin (calc j) \<and>
         camsRequired (calc i) \<le> camsRequired (calc j)"
proof -
  have same: "dpi j = dpi i" "overlap j = overlap i" "sensorPx j = sensorPx i"
    by (subst assms(3), simp)+
  have d: "0 < dpi i" and o: "0 \<le> overlap i" "overlap i < 1" and s: "0 < sensorPx i"
    using assms(1) by (simp_all add: valid_inputs_def)
  have across: "pxNeededAcross (calc i) \<le> pxNeededAcross (calc j)"
    using assms(4) d mmPerInch_pos
    by (simp add: pxNeededAcross_eq same divide_le_cancel mult_right_mono)
  have margin: "pxNeededWithMargin (calc i) \<le> pxNeededWithMargin (calc j)"
    using across o by (simp add: calc_pxNeededWithMargin same mult_right_mono)
  have "pxNeededWithMargin (calc i) / (sensorPx i * (1 - overlap i))
        \<le> pxNeededWithMargin (calc j) / (sensorPx i * (1 - overlap i))"
    using margin usable_pos[OF s o(2)] by (simp add: divide_right_mono)
  then have "camsRequired (calc i) \<le> camsRequired (calc j)"
    unfolding calc_camsRequired same by (rule Math_ceil_mono)
  with across margin show ?thesis by simp
qed

theorem calc_mono_widthMm_witness:
  "valid_inputs example_inputs \<and> valid_inputs (example_inputs\<lparr>widthMm := 2400\<rparr>) \<and>
   widthMm example_inputs \<le> widthMm (example_inputs\<lparr>widthMm := 2400\<rparr>) \<and>
   pxNeededAcross (calc example_inputs)
     \<le> pxNeededAcross (calc (example_inputs\<lparr>widthMm := 2400\<rparr>)) \<and>
   pxNeededWithMargin (calc example_inputs)
     \<le> pxNeededWithMargin (calc (example_inputs\<lparr>widthMm := 2400\<rparr>)) \<and>
   camsRequired (calc example_inputs)
     \<le> camsRequired (calc (example_inputs\<lparr>widthMm := 2400\<rparr>))"
proof -
  have v: "valid_inputs (example_inputs\<lparr>widthMm := 2400\<rparr>)"
    by (simp add: valid_inputs_def example_inputs_def is_integer_def)
  have j: "example_inputs\<lparr>widthMm := 2400\<rparr> =
      example_inputs\<lparr>widthMm := widthMm (example_inputs\<lparr>widthMm := 2400\<rparr>)\<rparr>"
    by simp
  have w: "widthMm example_inputs \<le> widthMm (example_inputs\<lparr>widthMm := 2400\<rparr>)"
    by (simp add: example_inputs_def)
  from calc_mono_widthMm[OF example_inputs_valid v j w] example_inputs_valid v w
  show ?thesis by simp
qed

section \<open>What reaches the calculator\<close>

lemma validate_Accepted_Some:
  assumes "validate q v = Accepted"
  shows "\<exists>x. v = Some x"
  using assms
  by (cases q; cases v)
    (simp_all add: check_positive_def check_fraction_def check_nonNegative_def)

lemma ask_Accepted: "ask q vs = Some (v, vs') \<Longrightarrow> validate q v = Accepted"
  by (induction vs) (auto split: if_splits)

lemma prompt_Accepted:
  "prompt qs vs = Some answers \<Longrightarrow>
     map fst answers = qs \<and> (\<forall>(q, v) \<in> set answers. validate q v = Accepted)"
proof (induction qs arbitrary: vs answers)
  case Nil
  then show ?case by simp
next
  case (Cons q qs)
  from Cons.prems obtain v vs' rest where a: "ask q vs = Some (v, vs')"
    and p: "prompt qs vs' = Some rest" and ans: "answers = (q, v) # rest"
    by (auto split: option.splits)
  from Cons.IH[OF p] ask_Accepted[OF a] ans show ?case by simp
qed

lemma merge_Accepted:
  "\<forall>(q, v) \<in> set answers. validate q v = Accepted \<Longrightarrow> merge i answers \<noteq> None"
proof (induction answers arbitrary: i)
  case Nil
  then show ?case by simp
next
  case (Cons a answers)
  obtain q v where a: "a = (q, v)" by (cases a)
  with Cons.prems have "validate q v = Accepted" by simp
  then obtain x where "v = Some x"
    using validate_Accepted_Some by blast
  with Cons a show ?case by simp
qed

lemma merge_questions:
  assumes "map fst answers = questions"
    and "\<forall>(q, v) \<in> set answers. validate q v = Accepted"
    and "merge i answers = Some i'"
  shows "prompt_checked i'"
proof -
  from assms(1) obtain v1 v2 v3 v4 v5 v6 v7 v8 v9 where ans:
    "answers = [(Q_widthMm, v1), (Q_lengthMm, v2), (Q_dpi, v3), (Q_sensorPx, v4),
                (Q_pixelPitchUm, v5), (Q_wdMm, v6), (Q_speedMmS, v7), (Q_overlap, v8),
                (Q_cameras, v9)]"
    by (auto simp add: questions_def map_eq_Cons_conv)
  with assms(2) have acc:
    "check_positive positiveNumber v1 = Accepted" "check_positive positiveNumber v2 = Accepted"
    "check_positive positiveNumber v3 = Accepted" "check_positive positiveInteger v4 = Accepted"
    "check_positive positiveNumber v5 = Accepted" "check_positive positiveNumber v6 = Accepted"
    "check_positive positiveNumber v7 = Accepted" "check_fraction fraction v8 = Accepted"
    "check_nonNegative nonNegative v9 = Accepted"
    by simp_all
  then obtain x1 x2 x3 x4 x5 x6 x7 x8 x9 where vs:
    "v1 = Some x1" "v2 = Some x2" "v3 = Some x3" "v4 = Some x4" "v5 = Some x5"
    "v6 = Some x6" "v7 = Some x7" "v8 = Some x8" "v9 = Some x9"
    by (auto simp add: check_positive_def check_fraction_def check_nonNegative_def
        split: option.splits)
  from acc have rng: "0 < x1" "0 < x2" "0 < x3" "0 < x4" "0 < x5" "0 < x6" "0 < x7"
    "0 \<le> x8" "x8 < 1" "0 \<le> x9"
    by (simp_all add: vs check_positive_def check_fraction_def check_nonNegative_def
        split: if_splits)
  from assms(3) have "i' = i\<lparr>widthMm := x1, lengthMm := x2, dpi := x3, sensorPx := x4,
      pixelPitchUm := x5, wdMm := x6, speedMmS := x7, overlap := x8, cameras := x9\<rparr>"
    by (simp add: ans vs)
  with rng show ?thesis by (simp add: prompt_checked_def)
qed

text \<open>
  Through the prompts only inputs in the checked ranges reach \<^verbatim>\<open>calc\<close>, and never a
  \<^verbatim>\<open>NaN\<close>. The checks do not ask for whole numbers: a fractional sensor pixel count
  passes, under the message that asks for a positive integer.
\<close>

lemma interactive_checked:
  assumes "noFlags cl" and "main cl s = Called i r"
  shows "prompt_checked i \<and> r = calc i"
proof -
  from assms obtain answers where p: "prompt questions (typed s) = Some answers"
    and m: "merge (inputs_of_argv cl) answers = Some i" and r: "r = calc i"
    by (auto simp add: main_def split: option.splits)
  from prompt_Accepted[OF p] m have "prompt_checked i"
    by (auto intro: merge_questions)
  with r show ?thesis by simp
qed

lemma main_never_NaN: "main cl s \<noteq> CalledWithNaN"
proof (cases "prompt questions (typed s)")
  case None
  then show ?thesis by (simp add: main_def split: option.splits)
next
  case (Some answers)
  from prompt_Accepted[OF Some] have "merge (inputs_of_argv cl) answers \<noteq> None"
    by (intro merge_Accepted) simp
  with Some show ?thesis by (auto simp add: main_def split: option.splits)
qed

lemma sensorPx_fraction_accepted:
  "validate Q_sensorPx (Some 4096.5) = Accepted \<and> \<not> is_integer 4096.5"
proof -
  have "\<lfloor>4096.5 :: real\<rfloor> = 4096"
    by (rule floor_unique) simp_all
  then show ?thesis by (simp add: check_positive_def is_integer_def)
qed

text \<open>
  Claim C2. Every invalid input is rejected before \<^verbatim>\<open>calc\<close> is invoked, on the command
  line as well as in the prompts. The code does not do so for the command line: on the
  single argument \<^verbatim>\<open>--dpi 0\<close>, whatever the interactive user would do, \<^verbatim>\<open>main\<close> calls
  \<^verbatim>\<open>calc\<close> with dpi 0, which the constraints exclude.
\<close>

theorem main_flags_unvalidated:
  "main dpi_zero_arguments s =
     Called (inputs_of_argv dpi_zero_arguments) (calc (inputs_of_argv dpi_zero_arguments)) \<and>
   dpi (inputs_of_argv dpi_zero_arguments) = 0 \<and>
   \<not> valid_inputs (inputs_of_argv dpi_zero_arguments)"
  by (simp add: main_def noFlags_def dpi_zero_arguments_def no_arguments_def
      inputs_of_argv_def option_default_def valid_inputs_def)

section \<open>Rounding to the nearest binary64 number\<close>

lemma rne_of_int [simp]: "rne (of_int n) = n"
  by (simp add: rne_def)

lemma rne_error: "\<bar>of_int (rne r) - r\<bar> \<le> 1 / 2"
  unfolding rne_def Let_def by (auto split: if_splits)

lemma rne_unique:
  assumes "\<bar>r - of_int n\<bar> < 1 / 2"
  shows "rne r = n"
proof -
  have "\<bar>of_int (rne r) - r\<bar> \<le> 1 / 2" by (rule rne_error)
  with assms have "\<bar>(of_int (rne r) :: real) - of_int n\<bar> < 1" by linarith
  then have "\<bar>rne r - n\<bar> < 1"
    by (metis of_int_diff of_int_abs of_int_less_1_iff)
  then show ?thesis by linarith
qed

lemma rne_cases: "rne r = \<lfloor>r\<rfloor> \<or> rne r = \<lfloor>r\<rfloor> + 1"
  unfolding rne_def Let_def by auto

lemma rne_tie:
  assumes "\<bar>r - of_int n\<bar> = 1 / 2" and "even n"
  shows "rne r = n"
proof (cases "of_int n \<le> r")
  case True
  with assms(1) have r: "r = of_int n + 1 / 2" by linarith
  then have "\<lfloor>r\<rfloor> = n" by (intro floor_unique) simp_all
  with r assms(2) show ?thesis by (simp add: rne_def Let_def)
next
  case False
  with assms(1) have r: "r = of_int (n - 1) + 1 / 2" by simp
  then have f: "\<lfloor>r\<rfloor> = n - 1" by (intro floor_unique) simp_all
  from assms(2) have "odd (n - 1)" by simp
  with r f show ?thesis by (simp add: rne_def Let_def)
qed

lemma rne_mono:
  assumes "r \<le> s"
  shows "rne r \<le> rne s"
proof (cases "\<lfloor>r\<rfloor> = \<lfloor>s\<rfloor>")
  case True
  with assms show ?thesis
    unfolding rne_def Let_def by (auto split: if_splits)
next
  case False
  with assms have "\<lfloor>r\<rfloor> < \<lfloor>s\<rfloor>"
    using floor_mono[OF assms] by linarith
  moreover have "rne r \<le> \<lfloor>r\<rfloor> + 1" using rne_cases[of r] by linarith
  moreover have "\<lfloor>s\<rfloor> \<le> rne s" using rne_cases[of s] by linarith
  ultimately show ?thesis by linarith
qed

lemma expo_search_ge: "e \<le> expo_search n e a"
proof (induction n arbitrary: e)
  case 0
  show ?case by simp
next
  case (Suc n)
  from Suc[of "e + 1"] show ?case by auto
qed

lemma expo_search_le: "expo_search n e a \<le> e + int n"
proof (induction n arbitrary: e)
  case 0
  show ?case by simp
next
  case (Suc n)
  from Suc[of "e + 1"] show ?case by auto
qed

lemma expo_search_upper:
  "expo_search n e a < e + int n \<Longrightarrow> a < 2 powi (expo_search n e a + 1)"
proof (induction n arbitrary: e)
  case 0
  then show ?case by simp
next
  case (Suc n)
  show ?case
  proof (cases "2 powi (e + 1) \<le> a")
    case True
    with Suc.prems have "expo_search n (e + 1) a < (e + 1) + int n" by simp
    from Suc.IH[OF this] True show ?thesis by simp
  next
    case False
    then show ?thesis by simp
  qed
qed

lemma expo_search_lower:
  "e < expo_search n e a \<Longrightarrow> 2 powi (expo_search n e a) \<le> a"
proof (induction n arbitrary: e)
  case 0
  then show ?case by simp
next
  case (Suc n)
  show ?case
  proof (cases "2 powi (e + 1) \<le> a")
    case True
    show ?thesis
    proof (cases "e + 1 < expo_search n (e + 1) a")
      case True
      from Suc.IH[OF this] \<open>2 powi (e + 1) \<le> a\<close> show ?thesis by simp
    next
      case False
      with expo_search_ge[of "e + 1" n a] have "expo_search n (e + 1) a = e + 1" by simp
      with True show ?thesis by simp
    qed
  next
    case False
    with Suc.prems show ?thesis by simp
  qed
qed

lemma expo_search_mono:
  "a \<le> b \<Longrightarrow> expo_search n e a \<le> expo_search n e b"
proof (induction n arbitrary: e)
  case 0
  show ?case by simp
next
  case (Suc n)
  show ?case
  proof (cases "2 powi (e + 1) \<le> a")
    case True
    with Suc.prems have "2 powi (e + 1) \<le> b" by simp
    with True Suc.IH[OF Suc.prems, of "e + 1"] show ?thesis by simp
  next
    case False
    then have "expo_search (Suc n) e a = e" by simp
    with expo_search_ge[of e "Suc n" b] show ?thesis by simp
  qed
qed

lemma expo_search_unique:
  assumes "e0 \<le> e" and "e \<le> e0 + int n" and "e0 < e \<Longrightarrow> 2 powi e \<le> a"
    and "a < 2 powi (e + 1)"
  shows "expo_search n e0 a = e"
  using assms
proof (induction n arbitrary: e0)
  case 0
  then show ?case by simp
next
  case (Suc n)
  show ?case
  proof (cases "e0 = e")
    case True
    with Suc.prems show ?thesis by simp
  next
    case False
    with Suc.prems have lt: "e0 < e" by simp
    then have "(2::real) powi (e0 + 1) \<le> 2 powi e"
      by (intro power_int_increasing) simp_all
    with Suc.prems(3)[OF lt] have t: "2 powi (e0 + 1) \<le> a" by simp
    have "expo_search n (e0 + 1) a = e"
      using Suc.prems lt by (intro Suc.IH) simp_all
    with t show ?thesis by simp
  qed
qed

lemma expo_ge: "- 1022 \<le> expo x"
  unfolding expo_def by (rule expo_search_ge)

lemma expo_le: "expo x \<le> 1076"
  unfolding expo_def using expo_search_le[of 2098 "- 1022" "\<bar>x\<bar>"] by simp

lemma expo_upper: "expo x < 1076 \<Longrightarrow> \<bar>x\<bar> < 2 powi (expo x + 1)"
  unfolding expo_def by (rule expo_search_upper) simp

lemma expo_lower: "- 1022 < expo x \<Longrightarrow> 2 powi (expo x) \<le> \<bar>x\<bar>"
  unfolding expo_def by (rule expo_search_lower)

lemma expo_mono: "\<bar>x\<bar> \<le> \<bar>y\<bar> \<Longrightarrow> expo x \<le> expo y"
  unfolding expo_def by (rule expo_search_mono)

lemma expo_unique:
  assumes "- 1022 \<le> e" and "e \<le> 1076" and "- 1022 < e \<Longrightarrow> 2 powi e \<le> \<bar>x\<bar>"
    and "\<bar>x\<bar> < 2 powi (e + 1)"
  shows "expo x = e"
  unfolding expo_def using assms by (intro expo_search_unique) simp_all

lemma expo_normal:
  assumes "2 powi (- 1022) \<le> \<bar>x\<bar>"
  shows "2 powi (expo x) \<le> \<bar>x\<bar>"
proof (cases "- 1022 < expo x")
  case True
  then show ?thesis by (rule expo_lower)
next
  case False
  with expo_ge[of x] have "expo x = - 1022" by simp
  with assms show ?thesis by simp
qed

lemma quantum_pos: "0 < quantum x"
  by (simp add: quantum_def)

lemma nearest_error: "\<bar>nearest x - x\<bar> \<le> quantum x / 2"
proof -
  have "nearest x - x = quantum x * (of_int (rne (x / quantum x)) - x / quantum x)"
    using quantum_pos[of x] by (simp add: nearest_def field_simps)
  then have "\<bar>nearest x - x\<bar> = quantum x * \<bar>of_int (rne (x / quantum x)) - x / quantum x\<bar>"
    using quantum_pos[of x] by (simp add: abs_mult)
  also have "\<dots> \<le> quantum x * (1 / 2)"
    using quantum_pos[of x] rne_error[of "x / quantum x"] by (intro mult_left_mono) simp_all
  finally show ?thesis by simp
qed

lemma quantum_le:
  assumes "2 powi (- 1022) \<le> \<bar>x\<bar>"
  shows "quantum x \<le> \<bar>x\<bar> / 2 ^ 52"
proof -
  have "quantum x = 2 powi (expo x) / 2 ^ 52"
    by (simp add: quantum_def power_int_diff)
  with expo_normal[OF assms] show ?thesis by (simp add: divide_right_mono)
qed

lemma nearest_rel_error:
  assumes "2 powi (- 1022) \<le> \<bar>x\<bar>"
  shows "\<bar>nearest x - x\<bar> \<le> \<bar>x\<bar> / 2 ^ 53"
proof -
  have "\<bar>nearest x - x\<bar> \<le> quantum x / 2" by (rule nearest_error)
  also have "\<dots> \<le> (\<bar>x\<bar> / 2 ^ 52) / 2"
    using quantum_le[OF assms] by simp
  also have "\<dots> = \<bar>x\<bar> / 2 ^ 53" by simp
  finally show ?thesis .
qed

lemma nearest_expo:
  assumes "expo x = e"
  shows "nearest x = of_int (rne (x / 2 powi (e - 52))) * 2 powi (e - 52)"
  using assms by (simp add: nearest_def quantum_def)

lemma nearest_unique:
  assumes "- 1022 \<le> e" and "e \<le> 1076" and "- 1022 < e \<Longrightarrow> 2 powi e \<le> \<bar>x\<bar>"
    and "\<bar>x\<bar> < 2 powi (e + 1)"
    and "\<bar>x / 2 powi (e - 52) - of_int n\<bar> < 1 / 2"
  shows "nearest x = of_int n * 2 powi (e - 52)"
proof -
  have "expo x = e" using assms(1-4) by (rule expo_unique)
  then show ?thesis using rne_unique[OF assms(5)] by (simp add: nearest_expo)
qed

lemma nearest_unique_tie:
  assumes "- 1022 \<le> e" and "e \<le> 1076" and "- 1022 < e \<Longrightarrow> 2 powi e \<le> \<bar>x\<bar>"
    and "\<bar>x\<bar> < 2 powi (e + 1)"
    and "\<bar>x / 2 powi (e - 52) - of_int n\<bar> = 1 / 2" and "even n"
  shows "nearest x = of_int n * 2 powi (e - 52)"
proof -
  have "expo x = e" using assms(1-4) by (rule expo_unique)
  then show ?thesis using rne_tie[OF assms(5,6)] by (simp add: nearest_expo)
qed

lemma nearest_0 [simp]: "nearest 0 = 0"
  by (simp add: nearest_def rne_def)

lemma nearest_pow2_aux:
  assumes "expo (2 powi k) = e" and "e - 52 \<le> k"
  shows "nearest (2 powi k) = 2 powi k"
proof -
  from assms(2) obtain m :: nat where m: "k - (e - 52) = int m"
    using nonneg_int_cases[of "k - (e - 52)"] by auto
  have "(2::real) powi k / 2 powi (e - 52) = 2 powi (k - (e - 52))"
    by (simp add: power_int_diff)
  also have "\<dots> = of_int (2 ^ m)"
    unfolding m by simp
  finally have d: "(2::real) powi k / 2 powi (e - 52) = of_int (2 ^ m)" .
  have "nearest (2 powi k) = of_int (rne (of_int (2 ^ m))) * 2 powi (e - 52)"
    unfolding nearest_expo[OF assms(1)] d ..
  also have "\<dots> = 2 powi (int m) * 2 powi (e - 52)"
    unfolding rne_of_int by simp
  also have "\<dots> = 2 powi (int m + (e - 52))"
    by (simp add: power_int_add)
  also have "int m + (e - 52) = k"
    using m by simp
  finally show ?thesis .
qed

lemma nearest_pow2:
  assumes "- 1074 \<le> k" and "k \<le> 1076"
  shows "nearest (2 powi k) = 2 powi k"
proof (cases "- 1022 \<le> k")
  case True
  have "expo (2 powi k) = k"
    using True assms(2) by (intro expo_unique) (simp_all add: power_int_strict_increasing)
  then show ?thesis by (rule nearest_pow2_aux) simp
next
  case False
  then have k: "k < - 1022" by simp
  have "(2::real) powi k < 2 powi (- 1022 + 1)"
    using k by (intro power_int_strict_increasing) simp_all
  moreover have "0 < (2::real) powi k" by simp
  ultimately have "\<bar>(2::real) powi k\<bar> < 2 powi (- 1022 + 1)"
    by (simp only: abs_of_pos)
  then have "expo (2 powi k) = - 1022"
    by (intro expo_unique) simp_all
  moreover have "- 1022 - 52 \<le> k" using assms(1) by linarith
  ultimately show ?thesis by (rule nearest_pow2_aux)
qed

lemma nearest_mono:
  assumes "0 \<le> x" and "x \<le> y"
  shows "nearest x \<le> nearest y"
proof -
  have le: "expo x \<le> expo y" using assms by (intro expo_mono) simp
  show ?thesis
  proof (cases "expo x = expo y")
    case True
    then have q: "quantum x = quantum y" by (simp add: quantum_def)
    have "x / quantum y \<le> y / quantum y"
      using assms(2) quantum_pos[of y] by (simp add: divide_right_mono)
    then have "rne (x / quantum y) \<le> rne (y / quantum y)" by (rule rne_mono)
    then show ?thesis
      using quantum_pos[of y] by (simp add: nearest_def q mult_right_mono)
  next
    case False
    with le have lt: "expo x < expo y" by simp
    with expo_le[of y] have "expo x < 1076" by simp
    then have ux: "x < 2 powi (expo x + 1)" using expo_upper[of x] assms(1) by simp
    have "x / quantum x \<le> 2 powi (expo x + 1) / quantum x"
      using ux quantum_pos[of x] by (simp add: divide_right_mono)
    also have "\<dots> = of_int (2 ^ 53)"
      by (simp add: quantum_def power_int_diff power_int_add)
    finally have "rne (x / quantum x) \<le> rne (of_int (2 ^ 53))" by (rule rne_mono)
    then have "rne (x / quantum x) \<le> 2 ^ 53" by (simp only: rne_of_int)
    then have "(of_int (rne (x / quantum x)) :: real) \<le> 2 ^ 53"
      by (metis of_int_le_iff of_int_numeral of_int_power)
    then have "nearest x \<le> 2 ^ 53 * quantum x"
      using quantum_pos[of x] by (simp add: nearest_def mult_right_mono)
    also have "\<dots> = 2 powi (expo x + 1)"
      by (simp add: quantum_def power_int_diff power_int_add)
    also have "\<dots> \<le> 2 powi (expo y)"
      using lt by (intro power_int_increasing) simp_all
    finally have a: "nearest x \<le> 2 powi (expo y)" .
    from lt expo_ge[of x] have "- 1022 < expo y" by simp
    then have ly: "2 powi (expo y) \<le> y" using expo_lower[of y] assms by simp
    have "of_int (2 ^ 52) = 2 powi (expo y) / quantum y"
      by (simp add: quantum_def power_int_diff)
    also have "\<dots> \<le> y / quantum y"
      using ly quantum_pos[of y] by (simp add: divide_right_mono)
    finally have "rne (of_int (2 ^ 52)) \<le> rne (y / quantum y)" by (rule rne_mono)
    then have "2 ^ 52 \<le> rne (y / quantum y)" by (simp only: rne_of_int)
    then have "(2 ^ 52 :: real) \<le> of_int (rne (y / quantum y))"
      by (metis of_int_le_iff of_int_numeral of_int_power)
    then have "2 ^ 52 * quantum y \<le> nearest y"
      using quantum_pos[of y] by (simp add: nearest_def mult_right_mono)
    moreover have "2 ^ 52 * quantum y = 2 powi (expo y)"
      by (simp add: quantum_def power_int_diff)
    ultimately have "2 powi (expo y) \<le> nearest y" by simp
    with a show ?thesis by simp
  qed
qed

lemma nearest_nonneg: "0 \<le> x \<Longrightarrow> 0 \<le> nearest x"
  using nearest_mono[of 0 x] by simp

section \<open>Rounded results\<close>

lemma fl_Fin:
  assumes "nearest x \<noteq> 0" and "\<bar>nearest x\<bar> < 2 powi 1024"
  shows "fl s x = Fin (nearest x)"
  using assms by (simp add: fl_def Let_def)

lemma fl_0 [simp]: "fl s 0 = zero s"
  by (simp add: fl_def Let_def)

lemma fl_pow2:
  assumes "- 1074 \<le> k" and "k \<le> 1023"
  shows "fl s (2 powi k) = Fin (2 powi k)"
proof -
  have n: "nearest (2 powi k) = 2 powi k"
    using assms by (intro nearest_pow2) simp_all
  have "(2::real) powi k < 2 powi 1024"
    using assms(2) by (intro power_int_strict_increasing) simp_all
  moreover have "0 < (2::real) powi k" by simp
  ultimately have b: "\<bar>nearest (2 powi k)\<bar> < 2 powi 1024"
    unfolding n by (simp only: abs_of_pos)
  have a: "nearest (2 powi k) \<noteq> 0"
    unfolding n by simp
  from fl_Fin[OF a b] show ?thesis unfolding n .
qed

lemma fl_range:
  assumes "2 powi a \<le> x" and "x \<le> 2 powi b" and "- 1074 \<le> a" and "b \<le> 1023"
  shows "\<exists>r. fl s x = Fin r \<and> r = nearest x \<and> 2 powi a \<le> r \<and> r \<le> 2 powi b"
proof -
  have ab: "a \<le> b"
  proof (rule ccontr)
    assume "\<not> a \<le> b"
    then have "(2::real) powi b < 2 powi a"
      by (intro power_int_strict_increasing) simp_all
    with assms(1,2) show False by simp
  qed
  have pa: "0 < (2::real) powi a" by simp
  with assms(1) have x0: "0 \<le> x" by linarith
  have "nearest (2 powi a) \<le> nearest x"
    using pa assms(1) by (intro nearest_mono) simp_all
  then have lo: "2 powi a \<le> nearest x"
    using nearest_pow2[of a] assms(3,4) ab by simp
  have "nearest x \<le> nearest (2 powi b)"
    using x0 assms(2) by (rule nearest_mono)
  then have hi: "nearest x \<le> 2 powi b"
    using nearest_pow2[of b] assms(3,4) ab by simp
  have "(2::real) powi b < 2 powi 1024"
    using assms(4) by (intro power_int_strict_increasing) simp_all
  with hi lo pa have "\<bar>nearest x\<bar> < 2 powi 1024" and "nearest x \<noteq> 0"
    by linarith+
  then have "fl s x = Fin (nearest x)" by (intro fl_Fin)
  with lo hi show ?thesis by simp
qed

lemma fl_overflow:
  assumes "2 powi 1024 \<le> x"
  shows "fl s x = PosInf"
proof -
  have p: "0 < (2::real) powi 1024" by simp
  have "nearest (2 powi 1024) \<le> nearest x"
    using p assms by (intro nearest_mono) simp_all
  then have "2 powi 1024 \<le> nearest x"
    using nearest_pow2[of 1024] by simp
  moreover from p assms have "\<not> x < 0" by linarith
  ultimately show ?thesis
    using p by (simp add: fl_def Let_def infinity_def abs_if del: power_int_numeral)
qed

lemma nearest_bound:
  assumes "- 1022 \<le> e" and "e \<le> 1022" and "2 powi e \<le> \<bar>x\<bar>" and "\<bar>x\<bar> < 2 powi (e + 1)"
  shows "nearest x \<noteq> 0 \<and> \<bar>nearest x\<bar> < 2 powi 1024"
proof -
  have e: "expo x = e" using assms by (intro expo_unique) simp_all
  have q: "quantum x = 2 powi (e - 52)" by (simp add: quantum_def e)
  have err: "\<bar>nearest x - x\<bar> \<le> 2 powi (e - 52) / 2"
    using nearest_error[of x] by (simp only: q)
  have h: "(2::real) powi (e - 52) / 2 < 2 powi e"
  proof -
    have "(2::real) powi (e - 52) \<le> 2 powi e"
      by (intro power_int_increasing) simp_all
    moreover have "0 < (2::real) powi (e - 52)" by simp
    ultimately show ?thesis by linarith
  qed
  have nz: "nearest x \<noteq> 0"
  proof
    assume "nearest x = 0"
    with err have "\<bar>x\<bar> \<le> 2 powi (e - 52) / 2" by simp
    with h assms(3) show False by linarith
  qed
  have "\<bar>nearest x\<bar> \<le> \<bar>x\<bar> + 2 powi (e - 52) / 2" using err by linarith
  also have "\<dots> < 2 powi (e + 1) + 2 powi e" using assms(4) h by linarith
  also have "\<dots> \<le> 2 powi (e + 1) + 2 powi (e + 1)"
    by (simp add: power_int_increasing)
  also have "\<dots> = 2 powi (e + 2)"
    by (simp add: power_int_add)
  also have "\<dots> \<le> 2 powi 1024"
    using assms(2) by (intro power_int_increasing) simp_all
  finally have "\<bar>nearest x\<bar> < 2 powi 1024" .
  with nz show ?thesis by simp
qed

lemma fl_eval:
  assumes "- 1022 \<le> e" and "e \<le> 1022" and "2 powi e \<le> \<bar>x\<bar>" and "\<bar>x\<bar> < 2 powi (e + 1)"
    and "\<bar>x / 2 powi (e - 52) - of_int n\<bar> < 1 / 2"
  shows "fl s x = Fin (of_int n * 2 powi (e - 52))"
proof -
  have "nearest x = of_int n * 2 powi (e - 52)"
    using assms by (intro nearest_unique) simp_all
  moreover have "fl s x = Fin (nearest x)"
    using nearest_bound[OF assms(1-4)] by (intro fl_Fin) simp_all
  ultimately show ?thesis by simp
qed

lemma fl_eval_tie:
  assumes "- 1022 \<le> e" and "e \<le> 1022" and "2 powi e \<le> \<bar>x\<bar>" and "\<bar>x\<bar> < 2 powi (e + 1)"
    and "\<bar>x / 2 powi (e - 52) - of_int n\<bar> = 1 / 2" and "even n"
  shows "fl s x = Fin (of_int n * 2 powi (e - 52))"
proof -
  have "nearest x = of_int n * 2 powi (e - 52)"
    using assms by (intro nearest_unique_tie) simp_all
  moreover have "fl s x = Fin (nearest x)"
    using nearest_bound[OF assms(1-4)] by (intro fl_Fin) simp_all
  ultimately show ?thesis by simp
qed

lemma num_div_pos:
  assumes "0 < x" and "0 < y"
  shows "num_div (Fin x) (Fin y) = fl False (x / y)"
  using assms by (simp add: num_div_def)

lemma num_mul_pos:
  assumes "0 \<le> x" and "0 \<le> y"
  shows "num_mul (Fin x) (Fin y) = fl False (x * y)"
  using assms by (simp add: num_mul_def)

lemma num_add_pos:
  assumes "0 \<le> x" and "0 \<le> y"
  shows "num_add (Fin x) (Fin y) = fl False (x + y)"
  using assms by (simp add: num_add_def)

lemma num_sub_pos:
  assumes "0 \<le> x" and "0 \<le> y"
  shows "num_sub (Fin x) (Fin y) = fl False (x - y)"
  using assms by (simp add: num_sub_def num_neg_def num_add_def)

lemma fl_1024: "fl s 1024 = Fin 1024" using fl_pow2[of 10 s] by simp

lemma fl_1: "fl s 1 = Fin 1" using fl_pow2[of 0 s] by simp

section \<open>Bounds between powers of two\<close>

lemma powi_pos: "0 < (2::real) powi k"
  by (rule zero_less_power_int) simp

lemma quot_bounds:
  fixes x y :: real
  assumes "2 powi a \<le> x" and "x \<le> 2 powi b" and "2 powi c \<le> y" and "y \<le> 2 powi d"
  shows "2 powi (a - d) \<le> x / y" and "x / y \<le> 2 powi (b - c)"
proof -
  have pa: "0 < (2::real) powi a" and pc: "0 < (2::real) powi c"
    by (rule zero_less_power_int, simp)+
  have xp: "0 < x" and yp: "0 < y"
    using assms(1,3) pa pc by linarith+
  have "(2::real) powi (a - d) = 2 powi a / 2 powi d"
    by (simp add: power_int_diff)
  also have "\<dots> \<le> x / y"
    using assms(1,4) xp yp by (intro frac_le) simp_all
  finally show "2 powi (a - d) \<le> x / y" .
  have "x / y \<le> 2 powi b / 2 powi c"
    using assms(2,3) xp yp by (intro frac_le) simp_all
  also have "\<dots> = 2 powi (b - c)"
    by (simp add: power_int_diff)
  finally show "x / y \<le> 2 powi (b - c)" .
qed

lemma prod_bounds:
  fixes x y :: real
  assumes "2 powi a \<le> x" and "x \<le> 2 powi b" and "2 powi c \<le> y" and "y \<le> 2 powi d"
  shows "2 powi (a + c) \<le> x * y" and "x * y \<le> 2 powi (b + d)"
proof -
  have xp: "0 < x" and yp: "0 < y"
    using assms(1,3) powi_pos[of a] powi_pos[of c] by linarith+
  have "(2::real) powi (a + c) = 2 powi a * 2 powi c"
    by (simp add: power_int_add)
  also have "\<dots> \<le> x * y"
    using assms(1,3) xp yp by (intro mult_mono) simp_all
  finally show "2 powi (a + c) \<le> x * y" .
  have "x * y \<le> 2 powi b * 2 powi d"
    using assms(2,4) xp yp by (intro mult_mono) simp_all
  also have "\<dots> = 2 powi (b + d)"
    by (simp add: power_int_add)
  finally show "x * y \<le> 2 powi (b + d)" .
qed

lemma in_interval_Fin [simp]: "in_interval lo hi (Fin x) \<longleftrightarrow> lo \<le> x \<and> x \<le> hi"
  by (simp add: in_interval_def)

lemma in_intervalE:
  assumes "in_interval lo hi n"
  obtains x where "n = Fin x" and "lo \<le> x" and "x \<le> hi"
  using assms by (cases n) (simp_all add: in_interval_def)

lemma fl_in_interval:
  assumes "2 powi a \<le> x" and "x \<le> 2 powi b" and "- 1074 \<le> a" and "b \<le> 1023"
  shows "in_interval (2 powi a) (2 powi b) (fl s x)"
  using fl_range[OF assms, of s] by auto

lemma num_div_in_interval:
  assumes "in_interval (2 powi a) (2 powi b) m" and "in_interval (2 powi c) (2 powi d) n"
    and "- 1074 \<le> a - d" and "b - c \<le> 1023"
  shows "in_interval (2 powi (a - d)) (2 powi (b - c)) (num_div m n)"
proof -
  from assms(1) obtain x where m: "m = Fin x" and x: "2 powi a \<le> x" "x \<le> 2 powi b"
    by (rule in_intervalE)
  from assms(2) obtain y where n: "n = Fin y" and y: "2 powi c \<le> y" "y \<le> 2 powi d"
    by (rule in_intervalE)
  have xp: "0 < x" and yp: "0 < y"
    using x(1) y(1) powi_pos[of a] powi_pos[of c] by linarith+
  note b = quot_bounds[OF x y]
  show ?thesis
    unfolding m n num_div_pos[OF xp yp]
    using b assms(3,4) by (rule fl_in_interval)
qed

lemma num_mul_in_interval:
  assumes "in_interval (2 powi a) (2 powi b) m" and "in_interval (2 powi c) (2 powi d) n"
    and "- 1074 \<le> a + c" and "b + d \<le> 1023"
  shows "in_interval (2 powi (a + c)) (2 powi (b + d)) (num_mul m n)"
proof -
  from assms(1) obtain x where m: "m = Fin x" and x: "2 powi a \<le> x" "x \<le> 2 powi b"
    by (rule in_intervalE)
  from assms(2) obtain y where n: "n = Fin y" and y: "2 powi c \<le> y" "y \<le> 2 powi d"
    by (rule in_intervalE)
  have xn: "0 \<le> x" and yn: "0 \<le> y"
    using x(1) y(1) powi_pos[of a] powi_pos[of c] by linarith+
  note b = prod_bounds[OF x y]
  show ?thesis
    unfolding m n num_mul_pos[OF xn yn]
    using b assms(3,4) by (rule fl_in_interval)
qed

lemma mmPerInch64_in_interval: "in_interval (2 powi 4) (2 powi 5) mmPerInch64"
  unfolding mmPerInch64_def lit_def by (rule fl_in_interval) simp_all

lemma one_plus_in_interval:
  assumes "0 \<le> v" and "v \<le> 1"
  shows "in_interval (2 powi 0) (2 powi 1) (num_add (Fin 1) (Fin v))"
  unfolding num_add_pos[OF zero_le_one assms(1)]
  using assms by (intro fl_in_interval) simp_all

lemma one_minus_in_interval:
  assumes "0 \<le> v" and "v \<le> 1 - 1 / 2 ^ 53"
  shows "in_interval (2 powi (- 53)) (2 powi 0) (num_sub (Fin 1) (Fin v))"
  unfolding num_sub_pos[OF zero_le_one assms(1)]
  using assms by (intro fl_in_interval) simp_all

lemma one_minus_half:
  assumes "0 \<le> v" and "v \<le> 1 / 2"
  shows "in_interval (2 powi (- 1)) (2 powi 0) (num_sub (Fin 1) (Fin v))"
  unfolding num_sub_pos[OF zero_le_one assms(1)]
  using assms by (intro fl_in_interval) simp_all

lemma thousand_in_interval: "in_interval (2 powi 9) (2 powi 10) (Fin 1000)"
  by simp

lemma num_ceil_in_interval:
  assumes "in_interval (2 powi a) (2 powi (int b)) n"
  shows "in_interval (2 powi 0) (2 powi (int b)) (num_ceil n)"
proof -
  from assms obtain x where n: "n = Fin x" and x: "2 powi a \<le> x" "x \<le> 2 powi (int b)"
    by (rule in_intervalE)
  have xp: "0 < x" using x(1) powi_pos[of a] by linarith
  then have "0 < \<lceil>x\<rceil>" by simp
  then have c1: "(1::real) \<le> of_int \<lceil>x\<rceil>" by linarith
  have "x \<le> of_int (2 ^ b)" using x(2) by simp
  then have "\<lceil>x\<rceil> \<le> 2 ^ b" by (simp only: ceiling_le_iff)
  then have "(of_int \<lceil>x\<rceil> :: real) \<le> of_int (2 ^ b)" by (simp only: of_int_le_iff)
  then have c2: "(of_int \<lceil>x\<rceil> :: real) \<le> 2 powi (int b)" by simp
  have "num_ceil n = Fin (of_int \<lceil>x\<rceil>)"
    using xp by (simp add: n num_ceil_def)
  with c1 c2 show ?thesis by simp
qed

section \<open>Relative error of a rounded result\<close>

lemma fl_rel_error:
  assumes "2 powi a \<le> x" and "x \<le> 2 powi b" and "- 1022 \<le> a" and "b \<le> 1023"
  shows "\<exists>r. fl s x = Fin r \<and> 2 powi a \<le> r \<and> r \<le> 2 powi b \<and> \<bar>r - x\<bar> \<le> x / 2 ^ 53"
proof -
  have a: "- 1074 \<le> a" using assms(3) by simp
  from fl_range[OF assms(1,2) a assms(4), of s] obtain r where r: "fl s x = Fin r"
    "r = nearest x" "2 powi a \<le> r" "r \<le> 2 powi b" by blast
  have "(2::real) powi (- 1022) \<le> 2 powi a"
    using assms(3) by (intro power_int_increasing) simp_all
  moreover have "0 < (2::real) powi (- 1022)" by (rule zero_less_power_int) simp
  ultimately have n: "2 powi (- 1022) \<le> \<bar>x\<bar>" and xp: "0 < x"
    using assms(1) by linarith+
  from nearest_rel_error[OF n] xp have "\<bar>r - x\<bar> \<le> x / 2 ^ 53"
    by (simp add: r(2))
  with r show ?thesis by blast
qed

lemma rel_error_factor:
  fixes x r :: real
  assumes "0 < x" and "\<bar>r - x\<bar> \<le> x / 2 ^ 53"
  obtains e where "r = x * (1 + e)" and "\<bar>e\<bar> \<le> 1 / 2 ^ 53"
proof
  show "r = x * (1 + (r - x) / x)"
    using assms(1) by (simp add: field_simps)
  have "\<bar>(r - x) / x\<bar> = \<bar>r - x\<bar> / x"
    using assms(1) by (simp add: abs_divide)
  also have "\<dots> \<le> (x / 2 ^ 53) / x"
    using assms by (intro divide_right_mono) simp_all
  also have "\<dots> = 1 / 2 ^ 53"
    using assms(1) by simp
  finally show "\<bar>(r - x) / x\<bar> \<le> 1 / 2 ^ 53" .
qed

lemma round_trip_error:
  fixes d :: real
  assumes "0 < d" and "\<bar>e1\<bar> \<le> 1 / 2 ^ 53" and "\<bar>e2\<bar> \<le> 1 / 2 ^ 53"
  shows "\<bar>d * (1 + e2) / (1 + e1) - d\<bar> \<le> d / 10 ^ 9"
proof -
  have u: "(1::real) / 2 ^ 53 \<le> 1 / 10000000000" by simp
  have p1: "9 / 10 \<le> 1 + e1" using assms(2) u by linarith
  then have pos: "0 < 1 + e1" by simp
  have eq: "(1 + e2) / (1 + e1) - 1 = (e2 - e1) / (1 + e1)"
    using pos by (simp add: field_simps)
  have num: "\<bar>e2 - e1\<bar> \<le> 2 / 10000000000"
    using assms(2,3) u by linarith
  have "\<bar>(1 + e2) / (1 + e1) - 1\<bar> = \<bar>e2 - e1\<bar> / (1 + e1)"
    by (simp only: eq abs_divide abs_of_pos[OF pos])
  also have "\<dots> \<le> (2 / 10000000000) / (9 / 10)"
    using num p1 by (intro frac_le) simp_all
  also have "\<dots> \<le> 1 / 10 ^ 9" by simp
  finally have r: "\<bar>(1 + e2) / (1 + e1) - 1\<bar> \<le> 1 / 10 ^ 9" .
  have "d * (1 + e2) / (1 + e1) - d = d * ((1 + e2) / (1 + e1) - 1)"
    by (simp add: algebra_simps)
  then have "\<bar>d * (1 + e2) / (1 + e1) - d\<bar> = d * \<bar>(1 + e2) / (1 + e1) - 1\<bar>"
    using assms(1) by (simp add: abs_mult)
  also have "\<dots> \<le> d * (1 / 10 ^ 9)"
    using r assms(1) by (intro mult_left_mono) simp_all
  finally show ?thesis by simp
qed

lemma nearest_next_after_1: "nearest (1 + 1 / 2 ^ 52) = 1 + 1 / 2 ^ 52"
  using nearest_unique[of 0 "1 + 1 / 2 ^ 52" "2 ^ 52 + 1"] by simp

lemma fl_one_plus:
  assumes "2 powi (- 52) \<le> m" and "m \<le> 2 powi 50"
  shows "\<exists>b. fl False (1 + m) = Fin b \<and> 1 < b \<and> b \<le> 2 powi 51 \<and>
             \<bar>b - (1 + m)\<bar> \<le> (1 + m) / 2 ^ 53"
proof -
  have lo: "2 powi 0 \<le> 1 + m"
    using assms(1) powi_pos[of "- 52"] by simp
  have "1 + m \<le> 2 powi 50 + 2 powi 50"
    using assms(2) by simp
  also have "\<dots> = 2 powi 51"
    by simp
  finally have hi: "1 + m \<le> 2 powi 51" .
  from fl_range[OF lo hi, of False] obtain b where b: "fl False (1 + m) = Fin b"
    "b = nearest (1 + m)" "b \<le> 2 powi 51" by auto
  have "(0::real) \<le> 1 + 1 / 2 ^ 52" by simp
  moreover have "1 + 1 / 2 ^ 52 \<le> 1 + m"
    using assms(1) by simp
  ultimately have "nearest (1 + 1 / 2 ^ 52) \<le> nearest (1 + m)"
    by (rule nearest_mono)
  then have "1 + 1 / 2 ^ 52 \<le> b"
    by (simp only: nearest_next_after_1 b(2))
  then have "1 < b" by simp
  moreover have "2 powi (- 1022) \<le> \<bar>1 + m\<bar>"
    using lo by simp
  then have "\<bar>b - (1 + m)\<bar> \<le> (1 + m) / 2 ^ 53"
    using nearest_rel_error[of "1 + m"] lo by (simp add: b(2))
  ultimately show ?thesis using b by blast
qed

lemma focal_ratio:
  fixes m ea eb ef :: real
  assumes "0 < m" and "m \<le> 2 ^ 50"
    and "\<bar>ea\<bar> \<le> 1 / 2 ^ 53" and "\<bar>eb\<bar> \<le> 1 / 2 ^ 53" and "\<bar>ef\<bar> \<le> 1 / 2 ^ 53"
  shows "m * ((1 + ea) * (1 + ef)) < (1 + m) * (1 + eb)"
proof -
  define u :: real where "u = 1 / 2 ^ 53"
  have u: "0 < u" "u \<le> 1 / 8" "u * u \<le> u" by (simp_all add: u_def)
  have um: "u * m \<le> 1 / 8"
  proof -
    have "u * m \<le> u * 2 ^ 50" using assms(2) u(1) by (intro mult_left_mono) simp_all
    also have "\<dots> = 1 / 8" by (simp add: u_def)
    finally show ?thesis .
  qed
  have a: "0 \<le> 1 + ea" "1 + ea \<le> 1 + u" and f: "0 \<le> 1 + ef" "1 + ef \<le> 1 + u"
    and b: "1 - u \<le> 1 + eb"
    using assms(3-5) u unfolding u_def[symmetric] by linarith+
  have "(1 + ea) * (1 + ef) \<le> (1 + u) * (1 + u)"
    using a f by (intro mult_mono) simp_all
  also have "\<dots> = 1 + 2 * u + u * u" by (simp add: algebra_simps)
  also have "\<dots> \<le> 1 + 3 * u" using u(3) by simp
  finally have "m * ((1 + ea) * (1 + ef)) \<le> m * (1 + 3 * u)"
    using assms(1) by (intro mult_left_mono) simp_all
  also have "\<dots> = m + 3 * (u * m)" by (simp add: algebra_simps)
  also have "\<dots> \<le> m + 3 / 8" using um by linarith
  also have "\<dots> < 1 + m - u - 1 / 8" using u(2) by linarith
  also have "\<dots> \<le> 1 + m - u - u * m" using um by linarith
  also have "\<dots> = (1 + m) * (1 - u)" by (simp add: algebra_simps)
  also have "\<dots> \<le> (1 + m) * (1 + eb)"
    using b assms(1) by (intro mult_left_mono) simp_all
  finally show ?thesis .
qed

lemma focal_core:
  assumes "2 powi (- 52) \<le> m" and "m \<le> 2 powi 50"
    and "2 powi (- 900) \<le> w" and "w \<le> 2 powi 900"
  shows "\<exists>b f. num_add (Fin 1) (Fin m) = Fin b \<and> 1 < b \<and>
           num_div (num_mul (Fin m) (Fin w)) (Fin b) = Fin f \<and> 0 < f \<and> f < w"
proof -
  have mp: "0 < m" using assms(1) powi_pos[of "- 52"] by linarith
  have wp: "0 < w" using assms(3) powi_pos[of "- 900"] by linarith
  \<comment> \<open>the denominator\<close>
  from fl_one_plus[OF assms(1,2)] obtain b where b: "fl False (1 + m) = Fin b" "1 < b"
    "b \<le> 2 powi 51" "\<bar>b - (1 + m)\<bar> \<le> (1 + m) / 2 ^ 53" by blast
  have bs: "num_add (Fin 1) (Fin m) = Fin b"
    using mp by (simp add: num_add_pos b(1))
  have m1: "0 < 1 + m" using mp by simp
  from rel_error_factor[OF m1 b(4)] obtain eb where eb: "b = (1 + m) * (1 + eb)"
    "\<bar>eb\<bar> \<le> 1 / 2 ^ 53" by blast
  \<comment> \<open>the numerator\<close>
  note pb = prod_bounds[OF assms]
  have lo: "2 powi (- 52 + - 900) \<le> m * w" and hi: "m * w \<le> 2 powi (50 + 900)"
    using pb by simp_all
  from fl_rel_error[OF lo hi, of False] obtain a where a: "fl False (m * w) = Fin a"
    "2 powi (- 52 + - 900) \<le> a" "a \<le> 2 powi (50 + 900)" "\<bar>a - m * w\<bar> \<le> m * w / 2 ^ 53"
    by auto
  have ap: "0 < a" using a(2) powi_pos[of "- 52 + - 900"] by linarith
  have as: "num_mul (Fin m) (Fin w) = Fin a"
    using mp wp by (simp add: num_mul_pos a(1))
  have mw: "0 < m * w" using mp wp by simp
  from rel_error_factor[OF mw a(4)] obtain ea where ea: "a = m * w * (1 + ea)"
    "\<bar>ea\<bar> \<le> 1 / 2 ^ 53" by blast
  \<comment> \<open>the quotient\<close>
  have b0: "2 powi 0 \<le> b" using b(2) by simp
  have bp: "0 < b" using b(2) by simp
  note qb = quot_bounds[OF a(2,3) b0 b(3)]
  from fl_rel_error[OF qb, of False] obtain f where f: "fl False (a / b) = Fin f"
    "2 powi (- 52 + - 900 - 51) \<le> f" "\<bar>f - a / b\<bar> \<le> a / b / 2 ^ 53"
    by auto
  have fp: "0 < f" using f(2) powi_pos[of "- 52 + - 900 - 51"] by linarith
  have fs: "num_div (num_mul (Fin m) (Fin w)) (Fin b) = Fin f"
    by (simp only: as num_div_pos[OF ap bp] f(1))
  have ab: "0 < a / b" using ap bp by simp
  from rel_error_factor[OF ab f(3)] obtain ef where ef: "f = a / b * (1 + ef)"
    "\<bar>ef\<bar> \<le> 1 / 2 ^ 53" by blast
  \<comment> \<open>below the working distance\<close>
  have m50: "m \<le> 2 ^ 50" using assms(2) by simp
  have r: "m * ((1 + ea) * (1 + ef)) < (1 + m) * (1 + eb)"
    using mp m50 ea(2) eb(2) ef(2) by (rule focal_ratio)
  have bpos: "0 < (1 + m) * (1 + eb)" using bp eb(1) by simp
  have "f = w * (m * ((1 + ea) * (1 + ef)) / ((1 + m) * (1 + eb)))"
    by (simp add: ef(1) ea(1) eb(1))
  also have "\<dots> < w * 1"
    using r bpos wp by (intro mult_strict_left_mono) (simp_all add: pos_divide_less_eq)
  finally have "f < w" by simp
  with bs b(2) fs fp show ?thesis by blast
qed

section \<open>Field-by-field reading of the binary64 result\<close>

lemma calc64_pixelSizeObjMm: "pixelSizeObjMm64 (calc64 i) = num_div mmPerInch64 (dpi64 i)"
  by (simp only: calc64_def Let_def Results64.select_convs)

lemma calc64_pxNeededAcross:
  "pxNeededAcross64 (calc64 i) = num_div (widthMm64 i) (pixelSizeObjMm64 (calc64 i))"
  by (simp only: calc64_def Let_def Results64.select_convs)

lemma calc64_pxNeededWithMargin:
  "pxNeededWithMargin64 (calc64 i) =
     num_mul (pxNeededAcross64 (calc64 i)) (num_add (Fin 1) (overlap64 i))"
  by (simp only: calc64_def Let_def Results64.select_convs)

lemma calc64_camsRequired: "camsRequired64 (calc64 i) = num_ceil (quotient64 i)"
  by (simp only: calc64_def quotient64_def Let_def Results64.select_convs)

lemma quotient64_fields:
  "quotient64 i =
     num_div (pxNeededWithMargin64 (calc64 i))
       (num_mul (sensorPx64 i) (num_sub (Fin 1) (overlap64 i)))"
  by (simp only: calc64_def quotient64_def Let_def Results64.select_convs)

lemma calc64_fovPerCamMm:
  "fovPerCamMm64 (calc64 i) =
     num_div (num_mul (widthMm64 i) (num_add (Fin 1) (overlap64 i))) (camsUsed64 i)"
  by (simp only: calc64_def camsUsed64_def Let_def Results64.select_convs)

lemma calc64_sensorLengthMm:
  "sensorLengthMm64 (calc64 i) =
     num_mul (sensorPx64 i) (num_div (pixelPitchUm64 i) (Fin 1000))"
  by (simp only: calc64_def Let_def Results64.select_convs)

lemma calc64_magnification:
  "magnification64 (calc64 i) =
     num_div (sensorLengthMm64 (calc64 i)) (fovPerCamMm64 (calc64 i))"
  by (simp only: calc64_def Let_def Results64.select_convs)

lemma calc64_focalLengthMm:
  "focalLengthMm64 (calc64 i) =
     num_div (num_mul (magnification64 (calc64 i)) (wdMm64 i))
       (num_add (Fin 1) (magnification64 (calc64 i)))"
  by (simp only: calc64_def Let_def Results64.select_convs)

lemma calc64_eqDpi:
  "eqDpi64 (calc64 i) = num_div mmPerInch64 (num_div mmPerInch64 (dpi64 i))"
  by (simp only: calc64_def Let_def Results64.select_convs)

lemma calc64_eqDpi_field:
  "eqDpi64 (calc64 i) = num_div mmPerInch64 (pixelSizeObjMm64 (calc64 i))"
  by (simp only: calc64_def Let_def Results64.select_convs)

lemma calc64_usablePxPerCam: "usablePxPerCam64 (calc64 i) = sensorPx64 i"
  by (simp only: calc64_def Let_def Results64.select_convs)

lemma calc64_linePitchMm: "linePitchMm64 (calc64 i) = pixelSizeObjMm64 (calc64 i)"
  by (simp only: calc64_def Let_def Results64.select_convs)

lemma calc64_linesNeeded:
  "linesNeeded64 (calc64 i) = num_div (lengthMm64 i) (linePitchMm64 (calc64 i))"
  by (simp only: calc64_def Let_def Results64.select_convs)

lemma calc64_lineRateHz:
  "lineRateHz64 (calc64 i) = num_div (speedMmS64 i) (linePitchMm64 (calc64 i))"
  by (simp only: calc64_def Let_def Results64.select_convs)

text \<open>
  The camera count used after camsRequired, in binary64 as in exact arithmetic: the input
  cameras when it is positive, camsRequired when it is 0; and camsRequired does not depend
  on the cameras field.
\<close>

lemma camsUsed64_override:
  "cameras64 i = Fin c \<Longrightarrow> 0 < c \<Longrightarrow> camsUsed64 i = cameras64 i"
  "cameras64 i = Fin 0 \<Longrightarrow> camsUsed64 i = camsRequired64 (calc64 i)"
  "camsRequired64 (calc64 (i\<lparr>cameras64 := n\<rparr>)) = camsRequired64 (calc64 i)"
  by (simp_all add: camsUsed64_def num_or_def calc64_camsRequired quotient64_def)

section \<open>Ranges of the intermediate values\<close>

lemma quotient64_in_interval:
  assumes "in_interval (2 powi (- 300)) (2 powi 300) (widthMm64 i)"
    and "in_interval (2 powi (- 300)) (2 powi 300) (dpi64 i)"
    and "in_interval (2 powi 0) (2 powi 300) (sensorPx64 i)"
    and "overlap64 i = Fin v" and "0 \<le> v" and "v \<le> 1 - 1 / 2 ^ 53"
  shows "in_interval (2 powi (- 905)) (2 powi 650) (quotient64 i)"
proof -
  have p: "in_interval (2 powi (4 - 300)) (2 powi (5 - (- 300))) (num_div mmPerInch64 (dpi64 i))"
    using mmPerInch64_in_interval assms(2) by (rule num_div_in_interval) simp_all
  have a: "in_interval (2 powi (- 300 - 305)) (2 powi (300 - (- 296)))
      (num_div (widthMm64 i) (num_div mmPerInch64 (dpi64 i)))"
    using assms(1) p by (intro num_div_in_interval) simp_all
  have "(0::real) \<le> 1 / 2 ^ 53" by simp
  with assms(6) have v1: "v \<le> 1" by linarith
  have m: "in_interval (2 powi (- 605 + 0)) (2 powi (596 + 1))
      (num_mul (num_div (widthMm64 i) (num_div mmPerInch64 (dpi64 i)))
         (num_add (Fin 1) (overlap64 i)))"
    unfolding assms(4) using a one_plus_in_interval[OF assms(5) v1]
    by (intro num_mul_in_interval) simp_all
  have d: "in_interval (2 powi (0 + (- 53))) (2 powi (300 + 0))
      (num_mul (sensorPx64 i) (num_sub (Fin 1) (overlap64 i)))"
    unfolding assms(4) using assms(3) one_minus_in_interval[OF assms(5,6)]
    by (intro num_mul_in_interval) simp_all
  have "in_interval (2 powi (- 605 - 300)) (2 powi (597 - (- 53))) (quotient64 i)"
    unfolding quotient64_def using m d by (intro num_div_in_interval) simp_all
  then show ?thesis by simp
qed

lemma magnification64_in_interval:
  assumes "in_interval (2 powi 0) (2 powi 20) (widthMm64 i)"
    and "in_interval (2 powi (- 10)) (2 powi 14) (dpi64 i)"
    and "in_interval (2 powi 0) (2 powi 16) (sensorPx64 i)"
    and "in_interval (2 powi (- 10)) (2 powi 10) (pixelPitchUm64 i)"
    and "overlap64 i = Fin v" and "0 \<le> v" and "v \<le> 1 / 2"
    and "cameras64 i = Fin 0 \<or> in_interval (2 powi 0) (2 powi 32) (cameras64 i)"
  shows "in_interval (2 powi (- 41)) (2 powi 49) (magnification64 (calc64 i))"
proof -
  have v1: "v \<le> 1" using assms(7) by simp
  note plus = one_plus_in_interval[OF assms(6) v1]
  have p: "in_interval (2 powi (4 - 14)) (2 powi (5 - (- 10))) (num_div mmPerInch64 (dpi64 i))"
    using mmPerInch64_in_interval assms(2) by (rule num_div_in_interval) simp_all
  have a: "in_interval (2 powi (0 - 15)) (2 powi (20 - (- 10)))
      (num_div (widthMm64 i) (num_div mmPerInch64 (dpi64 i)))"
    using assms(1) p by (intro num_div_in_interval) simp_all
  have m: "in_interval (2 powi (- 15 + 0)) (2 powi (30 + 1))
      (num_mul (num_div (widthMm64 i) (num_div mmPerInch64 (dpi64 i)))
         (num_add (Fin 1) (overlap64 i)))"
    unfolding assms(5) using a plus by (intro num_mul_in_interval) simp_all
  have d: "in_interval (2 powi (0 + (- 1))) (2 powi (16 + 0))
      (num_mul (sensorPx64 i) (num_sub (Fin 1) (overlap64 i)))"
    unfolding assms(5) using assms(3) one_minus_half[OF assms(6,7)]
    by (intro num_mul_in_interval) simp_all
  have "in_interval (2 powi (- 15 - 16)) (2 powi (31 - (- 1))) (quotient64 i)"
    unfolding quotient64_def using m d by (intro num_div_in_interval) simp_all
  then have "in_interval (2 powi (- 31)) (2 powi (int 32)) (quotient64 i)" by simp
  then have "in_interval (2 powi 0) (2 powi (int 32)) (num_ceil (quotient64 i))"
    by (rule num_ceil_in_interval)
  then have r: "in_interval (2 powi 0) (2 powi 32) (camsRequired64 (calc64 i))"
    by (simp add: calc64_camsRequired)
  have u: "in_interval (2 powi 0) (2 powi 32) (camsUsed64 i)"
  proof -
    from assms(8) show ?thesis
    proof
      assume "cameras64 i = Fin 0"
      then show ?thesis using r by (simp add: camsUsed64_def num_or_def)
    next
      assume c: "in_interval (2 powi 0) (2 powi 32) (cameras64 i)"
      then obtain x where x: "cameras64 i = Fin x" "2 powi 0 \<le> x" by (rule in_intervalE)
      then have "x \<noteq> 0" by simp
      with x(1) have "camsUsed64 i = cameras64 i"
        by (simp add: camsUsed64_def num_or_def)
      with c show ?thesis by simp
    qed
  qed
  have w1: "in_interval (2 powi (0 + 0)) (2 powi (20 + 1))
      (num_mul (widthMm64 i) (num_add (Fin 1) (overlap64 i)))"
    unfolding assms(5) using assms(1) plus by (intro num_mul_in_interval) simp_all
  have f: "in_interval (2 powi (0 - 32)) (2 powi (21 - 0)) (fovPerCamMm64 (calc64 i))"
    unfolding calc64_fovPerCamMm using w1 u
    by (intro num_div_in_interval) simp_all
  have t: "in_interval (2 powi (- 10 - 10)) (2 powi (10 - 9))
      (num_div (pixelPitchUm64 i) (Fin 1000))"
    using assms(4) thousand_in_interval by (intro num_div_in_interval) simp_all
  have s: "in_interval (2 powi (0 + (- 20))) (2 powi (16 + 1)) (sensorLengthMm64 (calc64 i))"
    unfolding calc64_sensorLengthMm using assms(3) t
    by (intro num_mul_in_interval) simp_all
  have "in_interval (2 powi (- 20 - 21)) (2 powi (17 - (- 32))) (magnification64 (calc64 i))"
    unfolding calc64_magnification using s f
    by (intro num_div_in_interval) simp_all
  then show ?thesis by simp
qed

section \<open>Evaluations\<close>

text \<open>
  The documented example, operation by operation. In binary64 the field of view per camera
  is one unit in the last place above 672, and every figure of the documentation is the
  returned value rounded to the digits shown.
\<close>

lemma ri_c: "lit 25.4 = Fin (3574732204225331 / 2 ^ 47)"
  unfolding lit_def using fl_eval[of 4 "25.4" 7149464408450662 False] by simp

lemma lit_012: "lit 0.12 = Fin (1080863910568919 / 2 ^ 53)"
  unfolding lit_def using fl_eval[of "-4" "0.12" 8646911284551352 False] by simp

lemma ex_p: "num_div (Fin (3574732204225331 / 2 ^ 47)) (Fin 250) = Fin (3660525777126739 / 2 ^ 55)"
  using fl_eval[of "-4" "(3574732204225331 / 2 ^ 47) / 250" 7321051554253478 False]
  by (simp add: num_div_pos)

lemma ex_pxA: "num_div (Fin 1200) (Fin (3660525777126739 / 2 ^ 55)) = Fin (6493178904188977 / 2 ^ 39)"
  using fl_eval[of 13 "1200 / (3660525777126739 / 2 ^ 55)" 6493178904188977 False]
  by (simp add: num_div_pos)

lemma ex_1po: "num_add (Fin 1) (Fin (1080863910568919 / 2 ^ 53)) = Fin (1261007895663739 / 2 ^ 50)"
  using fl_eval_tie[of 0 "1 + (1080863910568919 / 2 ^ 53)" 5044031582654956 False]
  by (simp add: num_add_pos)

lemma ex_pxM: "num_mul (Fin (6493178904188977 / 2 ^ 39)) (Fin (1261007895663739 / 2 ^ 50)) = Fin (7272360372691655 / 2 ^ 39)"
  using fl_eval[of 13 "(6493178904188977 / 2 ^ 39) * (1261007895663739 / 2 ^ 50)" 7272360372691655 False]
  by (simp add: num_mul_pos)

lemma ex_1mo: "num_sub (Fin 1) (Fin (1080863910568919 / 2 ^ 53)) = Fin (7926335344172073 / 2 ^ 53)"
  using fl_eval[of "-1" "1 - (1080863910568919 / 2 ^ 53)" 7926335344172073 False]
  by (simp add: num_sub_pos)

lemma ex_den: "num_mul (Fin 8192) (Fin (7926335344172073 / 2 ^ 53)) = Fin (7926335344172073 / 2 ^ 40)"
  using fl_eval[of 12 "8192 * (7926335344172073 / 2 ^ 53)" 7926335344172073 False]
  by (simp add: num_mul_pos)

lemma ex_q: "num_div (Fin (7272360372691655 / 2 ^ 39)) (Fin (7926335344172073 / 2 ^ 40)) = Fin (8264045878058699 / 2 ^ 52)"
  using fl_eval[of 0 "(7272360372691655 / 2 ^ 39) / (7926335344172073 / 2 ^ 40)" 8264045878058699 False]
  by (simp add: num_div_pos)

lemma ex_w1: "num_mul (Fin 1200) (Fin (1261007895663739 / 2 ^ 50)) = Fin (5910974510923777 / 2 ^ 42)"
  using fl_eval[of 10 "1200 * (1261007895663739 / 2 ^ 50)" 5910974510923777 False]
  by (simp add: num_mul_pos)

lemma ex_fov: "num_div (Fin (5910974510923777 / 2 ^ 42)) (Fin 2) = Fin (5910974510923777 / 2 ^ 43)"
  using fl_eval[of 9 "(5910974510923777 / 2 ^ 42) / 2" 5910974510923777 False]
  by (simp add: num_div_pos)

lemma ex_t: "num_div (Fin 7) (Fin 1000) = Fin (8070450532247929 / 2 ^ 60)"
  using fl_eval[of "-8" "7 / 1000" 8070450532247929 False]
  by (simp add: num_div_pos)

lemma ex_S: "num_mul (Fin 8192) (Fin (8070450532247929 / 2 ^ 60)) = Fin (8070450532247929 / 2 ^ 47)"
  using fl_eval[of 5 "8192 * (8070450532247929 / 2 ^ 60)" 8070450532247929 False]
  by (simp add: num_mul_pos)

lemma ex_M: "num_div (Fin (8070450532247929 / 2 ^ 47)) (Fin (5910974510923777 / 2 ^ 43)) = Fin (1537228672809129 / 2 ^ 54)"
  using fl_eval[of "-4" "(8070450532247929 / 2 ^ 47) / (5910974510923777 / 2 ^ 43)" 6148914691236516 False]
  by (simp add: num_div_pos)

lemma ex_A: "num_mul (Fin (1537228672809129 / 2 ^ 54)) (Fin 600) = Fin (900719925474099 / 2 ^ 44)"
  using fl_eval[of 5 "(1537228672809129 / 2 ^ 54) * 600" 7205759403792792 False]
  by (simp add: num_mul_pos)

lemma ex_B: "num_add (Fin 1) (Fin (1537228672809129 / 2 ^ 54)) = Fin (2443953397786389 / 2 ^ 51)"
  using fl_eval[of 0 "1 + (1537228672809129 / 2 ^ 54)" 4887906795572778 False]
  by (simp add: num_add_pos)

lemma ex_f: "num_div (Fin (900719925474099 / 2 ^ 44)) (Fin (2443953397786389 / 2 ^ 51)) = Fin (3319606604941397 / 2 ^ 46)"
  using fl_eval[of 5 "(900719925474099 / 2 ^ 44) / (2443953397786389 / 2 ^ 51)" 6639213209882794 False]
  by (simp add: num_div_pos)

lemma ex_lines: "num_div (Fin 1200) (Fin (3660525777126739 / 2 ^ 55)) = Fin (6493178904188977 / 2 ^ 39)"
  using fl_eval[of 13 "1200 / (3660525777126739 / 2 ^ 55)" 6493178904188977 False]
  by (simp add: num_div_pos)

lemma ex_rate: "num_div (Fin 200) (Fin (3660525777126739 / 2 ^ 55)) = Fin (8657571872251969 / 2 ^ 42)"
  using fl_eval[of 10 "200 / (3660525777126739 / 2 ^ 55)" 8657571872251969 False]
  by (simp add: num_div_pos)

lemma ex_eqDpi: "num_div (Fin (3574732204225331 / 2 ^ 47)) (Fin (3660525777126739 / 2 ^ 55)) = Fin 250"
  using fl_eval[of 7 "(3574732204225331 / 2 ^ 47) / (3660525777126739 / 2 ^ 55)" 8796093022208000 False]
  by (simp add: num_div_pos)

lemma ex_fields:
  "widthMm64 example_inputs64 = Fin 1200" "lengthMm64 example_inputs64 = Fin 1200"
  "dpi64 example_inputs64 = Fin 250" "sensorPx64 example_inputs64 = Fin 8192"
  "pixelPitchUm64 example_inputs64 = Fin 7" "wdMm64 example_inputs64 = Fin 600"
  "speedMmS64 example_inputs64 = Fin 200"
  "overlap64 example_inputs64 = Fin (1080863910568919 / 2 ^ 53)"
  "cameras64 example_inputs64 = Fin 2"
  by (simp_all only: example_inputs64_def Inputs64.select_convs lit_012)

lemma ex_pixelSizeObjMm:
  "pixelSizeObjMm64 (calc64 example_inputs64) = Fin (3660525777126739 / 2 ^ 55)"
  by (simp only: calc64_pixelSizeObjMm ex_fields mmPerInch64_def ri_c ex_p)

lemma ex_pxNeededAcross:
  "pxNeededAcross64 (calc64 example_inputs64) = Fin (6493178904188977 / 2 ^ 39)"
  by (simp only: calc64_pxNeededAcross ex_pixelSizeObjMm ex_fields ex_pxA)

lemma ex_pxNeededWithMargin:
  "pxNeededWithMargin64 (calc64 example_inputs64) = Fin (7272360372691655 / 2 ^ 39)"
  by (simp only: calc64_pxNeededWithMargin ex_pxNeededAcross ex_fields ex_1po ex_pxM)

lemma ex_quotient: "quotient64 example_inputs64 = Fin (8264045878058699 / 2 ^ 52)"
  by (simp only: quotient64_fields ex_pxNeededWithMargin ex_fields ex_1mo ex_den ex_q)

lemma ex_ceiling: "\<lceil>8264045878058699 / 2 ^ 52 :: real\<rceil> = 2"
  by (rule ceiling_unique) simp_all

lemma ex_camsRequired: "camsRequired64 (calc64 example_inputs64) = Fin 2"
  unfolding calc64_camsRequired ex_quotient
  by (simp add: num_ceil_def ex_ceiling)

lemma ex_camsUsed: "camsUsed64 example_inputs64 = Fin 2"
  by (simp add: camsUsed64_def ex_fields num_or_def)

lemma ex_fovPerCamMm:
  "fovPerCamMm64 (calc64 example_inputs64) = Fin (5910974510923777 / 2 ^ 43)"
  by (simp only: calc64_fovPerCamMm ex_camsUsed ex_fields ex_1po ex_w1 ex_fov)

lemma ex_sensorLengthMm:
  "sensorLengthMm64 (calc64 example_inputs64) = Fin (8070450532247929 / 2 ^ 47)"
  by (simp only: calc64_sensorLengthMm ex_fields ex_t ex_S)

lemma ex_magnification:
  "magnification64 (calc64 example_inputs64) = Fin (1537228672809129 / 2 ^ 54)"
  by (simp only: calc64_magnification ex_sensorLengthMm ex_fovPerCamMm ex_M)

lemma ex_focalLengthMm:
  "focalLengthMm64 (calc64 example_inputs64) = Fin (3319606604941397 / 2 ^ 46)"
  by (simp only: calc64_focalLengthMm ex_magnification ex_fields ex_A ex_B ex_f)

lemma ex_linesNeeded:
  "linesNeeded64 (calc64 example_inputs64) = Fin (6493178904188977 / 2 ^ 39)"
  by (simp only: calc64_linesNeeded calc64_linePitchMm ex_pixelSizeObjMm ex_fields ex_lines)

lemma ex_lineRateHz:
  "lineRateHz64 (calc64 example_inputs64) = Fin (8657571872251969 / 2 ^ 42)"
  by (simp only: calc64_lineRateHz calc64_linePitchMm ex_pixelSizeObjMm ex_fields ex_rate)

lemma ex_eqDpi_value: "eqDpi64 (calc64 example_inputs64) = Fin 250"
  by (simp only: calc64_eqDpi_field ex_pixelSizeObjMm mmPerInch64_def ri_c ex_eqDpi)

lemma example_scenario64:
  "\<bar>value_of (pixelSizeObjMm64 (calc64 example_inputs64)) - 0.1016\<bar> \<le> 0.00005 \<and>
   \<bar>value_of (pxNeededAcross64 (calc64 example_inputs64)) - 11811\<bar> \<le> 0.5 \<and>
   \<bar>value_of (pxNeededWithMargin64 (calc64 example_inputs64)) - 13228\<bar> \<le> 0.5 \<and>
   camsRequired64 (calc64 example_inputs64) = Fin 2 \<and>
   \<bar>value_of (fovPerCamMm64 (calc64 example_inputs64)) - 672.0\<bar> \<le> 0.05 \<and>
   value_of (fovPerCamMm64 (calc64 example_inputs64)) \<noteq> 672 \<and>
   \<bar>value_of (sensorLengthMm64 (calc64 example_inputs64)) - 57.344\<bar> \<le> 0.0005 \<and>
   \<bar>value_of (magnification64 (calc64 example_inputs64)) - 0.0853\<bar> \<le> 0.00005 \<and>
   \<bar>value_of (focalLengthMm64 (calc64 example_inputs64)) - 47.2\<bar> \<le> 0.05 \<and>
   \<bar>value_of (linePitchMm64 (calc64 example_inputs64)) - 0.102\<bar> \<le> 0.0005 \<and>
   \<bar>value_of (linesNeeded64 (calc64 example_inputs64)) - 11811\<bar> \<le> 0.5 \<and>
   \<bar>value_of (lineRateHz64 (calc64 example_inputs64)) - 1968.50\<bar> \<le> 0.005 \<and>
   eqDpi64 (calc64 example_inputs64) = Fin 250"
  unfolding calc64_linePitchMm ex_pixelSizeObjMm ex_pxNeededAcross ex_pxNeededWithMargin
    ex_camsRequired ex_fovPerCamMm ex_sensorLengthMm ex_magnification ex_focalLengthMm
    ex_linesNeeded ex_lineRateHz ex_eqDpi_value
  by simp

text \<open>
  The input on which rounding decides the camera count, operation by operation: the
  numbers that the literals denote, then each rounded result. One product and nothing else
  on the way to the quotient is a tie.
\<close>

lemma ri_w: "lit 3891.2 = Fin (4278419646001971 / 2 ^ 40)"
  unfolding lit_def using fl_eval[of 11 "3891.2" 8556839292003942 False] by simp

lemma ri_o: "lit 0.05 = Fin (3602879701896397 / 2 ^ 56)"
  unfolding lit_def using fl_eval[of "-5" "0.05" 7205759403792794 False] by simp

lemma ri_p: "num_div (Fin (3574732204225331 / 2 ^ 47)) (Fin 254) = Fin (7205759403792793 / 2 ^ 56)"
  using fl_eval[of "-4" "(3574732204225331 / 2 ^ 47) / 254" 7205759403792793 False]
  by (simp add: num_div_pos)

lemma ri_pxA: "num_div (Fin (4278419646001971 / 2 ^ 40)) (Fin (7205759403792793 / 2 ^ 56)) = Fin 38912"
  using fl_eval[of 15 "(4278419646001971 / 2 ^ 40) / (7205759403792793 / 2 ^ 56)" 5348024557502464 False]
  by (simp add: num_div_pos)

lemma ri_1po: "num_add (Fin 1) (Fin (3602879701896397 / 2 ^ 56)) = Fin (4728779608739021 / 2 ^ 52)"
  using fl_eval[of 0 "1 + 3602879701896397 / 2 ^ 56" 4728779608739021 False]
  by (simp add: num_add_pos)

lemma ri_pxM: "num_mul (Fin 38912) (Fin (4728779608739021 / 2 ^ 52)) = Fin (5615425785377587 / 2 ^ 37)"
  using fl_eval[of 15 "38912 * (4728779608739021 / 2 ^ 52)" 5615425785377587 False]
  by (simp add: num_mul_pos)

lemma ri_1mo: "num_sub (Fin 1) (Fin (3602879701896397 / 2 ^ 56)) = Fin (4278419646001971 / 2 ^ 52)"
  using fl_eval[of "-1" "1 - 3602879701896397 / 2 ^ 56" 8556839292003942 False]
  by (simp add: num_sub_pos)

lemma ri_den: "num_mul (Fin 6144) (Fin (4278419646001971 / 2 ^ 52)) = Fin (1604407367250739 / 2 ^ 38)"
  using fl_eval_tie[of 12 "6144 * (4278419646001971 / 2 ^ 52)" 6417629469002956 False]
  by (simp add: num_mul_pos)

lemma ri_q: "num_div (Fin (5615425785377587 / 2 ^ 37)) (Fin (1604407367250739 / 2 ^ 38)) = Fin (7881299347898369 / 2 ^ 50)"
  using fl_eval[of 2 "(5615425785377587 / 2 ^ 37) / (1604407367250739 / 2 ^ 38)" 7881299347898369 False]
  by (simp add: num_div_pos)

lemma ri_q1: "num_add (Fin (7881299347898369 / 2 ^ 50)) (Fin 1) = Fin 8"
  using fl_eval_tie[of 3 "7881299347898369 / 2 ^ 50 + 1" 4503599627370496 False]
  by (simp add: num_add_pos)

lemma ri_pixelSizeObjMm:
  "pixelSizeObjMm64 (calc64 rounding_inputs) = Fin (7205759403792793 / 2 ^ 56)"
  by (simp only: calc64_pixelSizeObjMm rounding_inputs_def Inputs64.select_convs
      mmPerInch64_def ri_c ri_p)

lemma ri_pxNeededAcross: "pxNeededAcross64 (calc64 rounding_inputs) = Fin 38912"
  unfolding calc64_pxNeededAcross ri_pixelSizeObjMm
  by (simp only: rounding_inputs_def Inputs64.select_convs ri_w ri_pxA)

lemma ri_pxNeededWithMargin:
  "pxNeededWithMargin64 (calc64 rounding_inputs) = Fin (5615425785377587 / 2 ^ 37)"
  unfolding calc64_pxNeededWithMargin ri_pxNeededAcross
  by (simp only: rounding_inputs_def Inputs64.select_convs ri_o ri_1po ri_pxM)

lemma ri_quotient: "quotient64 rounding_inputs = Fin (7881299347898369 / 2 ^ 50)"
  unfolding quotient64_fields ri_pxNeededWithMargin
  by (simp only: rounding_inputs_def Inputs64.select_convs ri_o ri_1mo ri_den ri_q)

lemma ri_ceiling: "\<lceil>7881299347898369 / 2 ^ 50 :: real\<rceil> = 8"
  by (rule ceiling_unique) simp_all

lemma ri_camsRequired: "camsRequired64 (calc64 rounding_inputs) = Fin 8"
  unfolding calc64_camsRequired ri_quotient
  by (simp add: num_ceil_def ri_ceiling)

text \<open>
  With a subnormal dpi the pixel size overflows, so the pixel counts, the quotient and the
  DPI computed back from the pixel size are all zero.
\<close>

lemma outside_tolerance:
  fixes t :: real
  assumes "0 < t"
  shows "\<not> \<bar>0 - t\<bar> \<le> t / 10 ^ 9"
  using assms by simp

lemma tiny_pixelSizeObjMm: "pixelSizeObjMm64 (calc64 tiny_dpi_inputs) = PosInf"
proof -
  from mmPerInch64_in_interval obtain c where c: "mmPerInch64 = Fin c" and c4: "2 powi 4 \<le> c"
    and c5: "c \<le> 2 powi 5" by (rule in_intervalE)
  have cp: "0 < c" using c4 powi_pos[of 4] by linarith
  have "(2::real) powi 1024 \<le> 2 powi (4 - (- 1024))"
    by (intro power_int_increasing) simp_all
  also have "\<dots> \<le> c / 2 powi (- 1024)"
    by (rule quot_bounds(1)[OF c4 c5 order_refl order_refl])
  finally have "fl False (c / 2 powi (- 1024)) = PosInf" by (rule fl_overflow)
  then show ?thesis
    using cp powi_pos[of "- 1024"]
    by (simp only: calc64_pixelSizeObjMm tiny_dpi_inputs_def Inputs64.select_convs c
        num_div_pos)
qed

lemma tiny_eqDpi: "eqDpi64 (calc64 tiny_dpi_inputs) = Fin 0"
proof -
  from mmPerInch64_in_interval obtain c where c: "mmPerInch64 = Fin c" and c4: "2 powi 4 \<le> c"
    by (rule in_intervalE)
  have cp: "0 < c" using c4 powi_pos[of 4] by linarith
  have "eqDpi64 (calc64 tiny_dpi_inputs) = num_div mmPerInch64 PosInf"
    using tiny_pixelSizeObjMm by (simp only: calc64_eqDpi calc64_pixelSizeObjMm)
  also have "\<dots> = Fin 0"
    using cp by (simp add: c num_div_def zero_def)
  finally show ?thesis .
qed

lemma tiny_camsRequired: "camsRequired64 (calc64 tiny_dpi_inputs) = Fin 0"
proof -
  have a: "pxNeededAcross64 (calc64 tiny_dpi_inputs) = Fin 0"
    unfolding calc64_pxNeededAcross tiny_pixelSizeObjMm
    by (simp add: tiny_dpi_inputs_def num_div_def zero_def)
  have v: "(0::real) \<le> 0.125" "(0.125::real) \<le> 1" "(0.125::real) \<le> 1 - 1 / 2 ^ 53" by simp_all
  from one_plus_in_interval[OF v(1,2)] obtain r where r: "num_add (Fin 1) (Fin 0.125) = Fin r"
    and r0: "2 powi 0 \<le> r" by (rule in_intervalE)
  have rp: "0 \<le> r" using r0 by simp
  have ov: "overlap64 tiny_dpi_inputs = Fin 0.125" and sp: "sensorPx64 tiny_dpi_inputs = Fin 8192"
    by (simp_all only: tiny_dpi_inputs_def Inputs64.select_convs)
  have "pxNeededWithMargin64 (calc64 tiny_dpi_inputs) = num_mul (Fin 0) (Fin r)"
    by (simp only: calc64_pxNeededWithMargin a ov r)
  also have "\<dots> = Fin 0"
    using rp by (simp add: num_mul_pos zero_def)
  finally have m: "pxNeededWithMargin64 (calc64 tiny_dpi_inputs) = Fin 0" .
  have s: "in_interval (2 powi 13) (2 powi 13) (Fin 8192)" by simp
  have "in_interval (2 powi (13 + (- 53))) (2 powi (13 + 0))
      (num_mul (Fin 8192) (num_sub (Fin 1) (Fin 0.125)))"
    using s one_minus_in_interval[OF v(1,3)] by (rule num_mul_in_interval) simp_all
  then obtain d where d: "num_mul (Fin 8192) (num_sub (Fin 1) (Fin 0.125)) = Fin d"
    and d0: "2 powi (13 + (- 53)) \<le> d" by (rule in_intervalE)
  have dp: "0 < d" using d0 powi_pos[of "13 + (- 53)"] by linarith
  have "quotient64 tiny_dpi_inputs = num_div (Fin 0) (Fin d)"
    by (simp only: quotient64_fields m ov sp d)
  also have "\<dots> = Fin 0"
    using dp by (simp add: num_div_def zero_def)
  finally show ?thesis
    by (simp add: calc64_camsRequired num_ceil_def)
qed

text \<open>
  With 2^60 cameras the magnification is 2^60, adding 1 to it changes nothing, and the
  focal length comes out as the working distance itself.
\<close>

lemma many_magnification: "magnification64 (calc64 many_cameras_inputs) = Fin (2 ^ 60)"
proof -
  have one: "num_add (Fin 1) (Fin 0) = Fin 1"
    by (simp add: num_add_pos fl_1)
  have w: "num_mul (Fin 1024) (Fin 1) = Fin 1024"
    by (simp add: num_mul_pos fl_1024)
  have u: "camsUsed64 many_cameras_inputs = Fin (2 ^ 60)"
    by (simp add: camsUsed64_def num_or_def many_cameras_inputs_def)
  have "fl False (1024 / 2 ^ 60) = Fin (1024 / 2 ^ 60)"
    using fl_pow2[of "- 50" False] by simp
  then have f: "fovPerCamMm64 (calc64 many_cameras_inputs) = Fin (1024 / 2 ^ 60)"
    unfolding calc64_fovPerCamMm u
    by (simp add: many_cameras_inputs_def one w num_div_pos)
  have t: "num_div (Fin 1000) (Fin 1000) = Fin 1"
    by (simp add: num_div_pos fl_1)
  have s: "sensorLengthMm64 (calc64 many_cameras_inputs) = Fin 1024"
    unfolding calc64_sensorLengthMm by (simp add: many_cameras_inputs_def t w)
  have "fl False (2 ^ 60) = Fin (2 ^ 60)"
    using fl_pow2[of 60 False] by simp
  then show ?thesis
    unfolding calc64_magnification s f by (simp add: num_div_pos)
qed

lemma many_focalLengthMm: "focalLengthMm64 (calc64 many_cameras_inputs) = Fin 512"
proof -
  have "fl False (2 ^ 60 * 512) = Fin (2 ^ 60 * 512)"
    using fl_pow2[of 69 False] by simp
  then have a: "num_mul (Fin (2 ^ 60)) (Fin 512) = Fin (2 ^ 60 * 512)"
    by (simp add: num_mul_pos)
  have "fl False (1 + 2 ^ 60) = Fin (2 ^ 60)"
    using fl_eval[of 60 "1 + 2 ^ 60" "2 ^ 52" False] by simp
  then have b: "num_add (Fin 1) (Fin (2 ^ 60)) = Fin (2 ^ 60)"
    by (simp add: num_add_pos)
  have "fl False 512 = Fin 512"
    using fl_pow2[of 9 False] by simp
  then have "num_div (Fin (2 ^ 60 * 512)) (Fin (2 ^ 60)) = Fin 512"
    by (simp add: num_div_pos)
  then show ?thesis
    unfolding calc64_focalLengthMm many_magnification
    by (simp only: many_cameras_inputs_def Inputs64.select_convs a b)
qed

text \<open>
  With the width 2^1023 the pixel count overflows and camsRequired is an infinity; with a
  pixel pitch of 1000 / 2^60 the magnification is 2^-70 and adding 1 to it gives 1.
\<close>

lemma huge_camsRequired: "camsRequired64 (calc64 huge_width_inputs) = PosInf"
proof -
  have f: "widthMm64 huge_width_inputs = Fin (2 powi 1023)"
    "dpi64 huge_width_inputs = Fin (2 ^ 20)" "sensorPx64 huge_width_inputs = Fin 8192"
    "overlap64 huge_width_inputs = Fin 0.125"
    by (simp_all only: huge_width_inputs_def Inputs64.select_convs)
  have d: "in_interval (2 powi 20) (2 powi 20) (Fin (2 ^ 20))" by simp
  have "in_interval (2 powi (4 - 20)) (2 powi (5 - 20)) (num_div mmPerInch64 (Fin (2 ^ 20)))"
    using mmPerInch64_in_interval d by (rule num_div_in_interval) simp_all
  then obtain p where p: "num_div mmPerInch64 (Fin (2 ^ 20)) = Fin p"
    and plo: "2 powi (4 - 20) \<le> p" and phi: "p \<le> 2 powi (5 - 20)" by (rule in_intervalE)
  have pp: "0 < p" using plo powi_pos[of "4 - 20"] by linarith
  have "(2::real) powi 1024 \<le> 2 powi (1023 - (5 - 20))"
    by (intro power_int_increasing) simp_all
  also have "\<dots> \<le> 2 powi 1023 / p"
    by (rule quot_bounds(1)[OF order_refl order_refl plo phi])
  finally have "fl False (2 powi 1023 / p) = PosInf" by (rule fl_overflow)
  then have a: "pxNeededAcross64 (calc64 huge_width_inputs) = PosInf"
    using pp powi_pos[of 1023]
    by (simp only: calc64_pxNeededAcross calc64_pixelSizeObjMm f p num_div_pos)
  have v: "(0::real) \<le> 0.125" "(0.125::real) \<le> 1" "(0.125::real) \<le> 1 - 1 / 2 ^ 53" by simp_all
  from one_plus_in_interval[OF v(1,2)] obtain r where r: "num_add (Fin 1) (Fin 0.125) = Fin r"
    and r0: "2 powi 0 \<le> r" by (rule in_intervalE)
  have rp: "0 < r" using r0 by simp
  have "pxNeededWithMargin64 (calc64 huge_width_inputs) = num_mul PosInf (Fin r)"
    by (simp only: calc64_pxNeededWithMargin a f r)
  also have "\<dots> = PosInf"
    using rp by (simp add: num_mul_def infinity_def)
  finally have m: "pxNeededWithMargin64 (calc64 huge_width_inputs) = PosInf" .
  have s: "in_interval (2 powi 13) (2 powi 13) (Fin 8192)" by simp
  have "in_interval (2 powi (13 + (- 53))) (2 powi (13 + 0))
      (num_mul (Fin 8192) (num_sub (Fin 1) (Fin 0.125)))"
    using s one_minus_in_interval[OF v(1,3)] by (rule num_mul_in_interval) simp_all
  then obtain d where d: "num_mul (Fin 8192) (num_sub (Fin 1) (Fin 0.125)) = Fin d"
    and d0: "2 powi (13 + (- 53)) \<le> d" by (rule in_intervalE)
  have dp: "0 < d" using d0 powi_pos[of "13 + (- 53)"] by linarith
  have "quotient64 huge_width_inputs = num_div PosInf (Fin d)"
    by (simp only: quotient64_fields m f d)
  also have "\<dots> = PosInf"
    using dp by (simp add: num_div_def infinity_def)
  finally show ?thesis
    by (simp add: calc64_camsRequired num_ceil_def)
qed

lemma tiny_pitch_magnification:
  "magnification64 (calc64 tiny_pitch_inputs) = Fin (1 / 2 ^ 70) \<and>
   num_add (Fin 1) (magnification64 (calc64 tiny_pitch_inputs)) = Fin 1"
proof -
  have one: "num_add (Fin 1) (Fin 0) = Fin 1"
    by (simp add: num_add_pos fl_1)
  have w: "num_mul (Fin 1024) (Fin 1) = Fin 1024"
    by (simp add: num_mul_pos fl_1024)
  have u: "camsUsed64 tiny_pitch_inputs = Fin 1"
    by (simp add: camsUsed64_def num_or_def tiny_pitch_inputs_def)
  have f: "fovPerCamMm64 (calc64 tiny_pitch_inputs) = Fin 1024"
    unfolding calc64_fovPerCamMm u
    by (simp add: tiny_pitch_inputs_def one w num_div_pos fl_1024)
  have "fl False (1 / 2 ^ 60) = Fin (1 / 2 ^ 60)"
    using fl_pow2[of "- 60" False] by simp
  then have t: "num_div (Fin (1000 / 2 ^ 60)) (Fin 1000) = Fin (1 / 2 ^ 60)"
    by (simp add: num_div_pos)
  have g: "sensorPx64 tiny_pitch_inputs = Fin 1"
    "pixelPitchUm64 tiny_pitch_inputs = Fin (1000 / 2 ^ 60)"
    by (simp_all only: tiny_pitch_inputs_def Inputs64.select_convs)
  have "sensorLengthMm64 (calc64 tiny_pitch_inputs) = num_mul (Fin 1) (Fin (1 / 2 ^ 60))"
    by (simp only: calc64_sensorLengthMm g t)
  also have "\<dots> = Fin (1 / 2 ^ 60)"
    using \<open>fl False (1 / 2 ^ 60) = Fin (1 / 2 ^ 60)\<close> by (simp add: num_mul_pos)
  finally have s: "sensorLengthMm64 (calc64 tiny_pitch_inputs) = Fin (1 / 2 ^ 60)" .
  have "fl False (1 / 2 ^ 70) = Fin (1 / 2 ^ 70)"
    using fl_pow2[of "- 70" False] by simp
  then have m: "magnification64 (calc64 tiny_pitch_inputs) = Fin (1 / 2 ^ 70)"
    unfolding calc64_magnification s f by (simp add: num_div_pos)
  have "fl False (1 + 1 / 2 ^ 70) = Fin 1"
    using fl_eval[of 0 "1 + 1 / 2 ^ 70" "2 ^ 52" False] by simp
  then have "num_add (Fin 1) (Fin (1 / 2 ^ 70)) = Fin 1"
    by (simp add: num_add_pos)
  with m show ?thesis by simp
qed

section \<open>The camera count in binary64\<close>

text \<open>
  Claim C3, amended. For inputs with width and dpi between 2^-300 and 2^300, a sensor
  pixel count from 1 to 2^300 and an overlap from 0 up to the last binary64 number below 1,
  the quotient that \<^verbatim>\<open>calc\<close> computes in binary64 is a finite positive number, and
  camsRequired is the ceiling of that computed quotient: an integer at least the computed
  quotient and less than the computed quotient plus 1.
\<close>

theorem camsRequired64_is_ceiling:
  assumes "in_interval (2 powi (- 300)) (2 powi 300) (widthMm64 i)"
    and "in_interval (2 powi (- 300)) (2 powi 300) (dpi64 i)"
    and "in_interval (2 powi 0) (2 powi 300) (sensorPx64 i)"
    and "overlap64 i = Fin v" and "0 \<le> v" and "v \<le> 1 - 1 / 2 ^ 53"
  shows "\<exists>x. quotient64 i = Fin x \<and> 0 < x \<and>
           camsRequired64 (calc64 i) = Fin (of_int \<lceil>x\<rceil>) \<and>
           x \<le> of_int \<lceil>x\<rceil> \<and> of_int \<lceil>x\<rceil> < x + 1"
proof -
  from quotient64_in_interval[OF assms] obtain x where q: "quotient64 i = Fin x"
    and x: "2 powi (- 905) \<le> x" by (rule in_intervalE)
  have xp: "0 < x" using x powi_pos[of "- 905"] by linarith
  have "camsRequired64 (calc64 i) = Fin (of_int \<lceil>x\<rceil>)"
    using xp by (simp add: calc64_camsRequired q num_ceil_def)
  moreover have "x \<le> of_int \<lceil>x\<rceil>" "of_int \<lceil>x\<rceil> < x + 1"
    by linarith+
  ultimately show ?thesis using q xp by blast
qed

theorem camsRequired64_is_ceiling_witness:
  "in_interval (2 powi (- 300)) (2 powi 300) (widthMm64 rounding_inputs) \<and>
   in_interval (2 powi (- 300)) (2 powi 300) (dpi64 rounding_inputs) \<and>
   in_interval (2 powi 0) (2 powi 300) (sensorPx64 rounding_inputs) \<and>
   overlap64 rounding_inputs = Fin (3602879701896397 / 2 ^ 56) \<and>
   (0::real) \<le> 3602879701896397 / 2 ^ 56 \<and>
   (3602879701896397 / 2 ^ 56 :: real) \<le> 1 - 1 / 2 ^ 53 \<and>
   quotient64 rounding_inputs = Fin (7881299347898369 / 2 ^ 50) \<and>
   camsRequired64 (calc64 rounding_inputs) = Fin (of_int \<lceil>7881299347898369 / 2 ^ 50 :: real\<rceil>) \<and>
   (7881299347898369 / 2 ^ 50 :: real) \<le> of_int \<lceil>7881299347898369 / 2 ^ 50 :: real\<rceil> \<and>
   of_int \<lceil>7881299347898369 / 2 ^ 50 :: real\<rceil> < (7881299347898369 / 2 ^ 50 :: real) + 1"
proof -
  have "widthMm64 rounding_inputs = Fin (4278419646001971 / 2 ^ 40)"
    by (simp only: rounding_inputs_def Inputs64.select_convs ri_w)
  then have w: "in_interval (2 powi (- 300)) (2 powi 300) (widthMm64 rounding_inputs)"
    by simp
  have d: "in_interval (2 powi (- 300)) (2 powi 300) (dpi64 rounding_inputs)"
    by (simp add: rounding_inputs_def)
  have s: "in_interval (2 powi 0) (2 powi 300) (sensorPx64 rounding_inputs)"
    by (simp add: rounding_inputs_def)
  have o: "overlap64 rounding_inputs = Fin (3602879701896397 / 2 ^ 56)"
    by (simp only: rounding_inputs_def Inputs64.select_convs ri_o)
  have v: "(0::real) \<le> 3602879701896397 / 2 ^ 56"
    "(3602879701896397 / 2 ^ 56 :: real) \<le> 1 - 1 / 2 ^ 53"
    by simp_all
  from camsRequired64_is_ceiling[OF w d s o v] obtain x where x: "quotient64 rounding_inputs = Fin x"
    "camsRequired64 (calc64 rounding_inputs) = Fin (of_int \<lceil>x\<rceil>)"
    "x \<le> of_int \<lceil>x\<rceil>" "of_int \<lceil>x\<rceil> < x + 1" by blast
  from x(1) have "x = 7881299347898369 / 2 ^ 50"
    by (simp only: ri_quotient number.inject)
  with x w d s o v ri_quotient show ?thesis by blast
qed

text \<open>
  The claim as stated fails on the input with width 3891.2, dpi 254, 6144 pixels and overlap
  0.05: the quotient of the returned pxNeededWithMargin by sensorPx * (1 - overlap) is below
  7, the computed quotient is the next binary64 number above 7, and camsRequired is 8.
  Adding 1 to the computed quotient in binary64 gives 8 as well.
\<close>

theorem camsRequired_is_ceiling_counterexample:
  "widthMm64 rounding_inputs = Fin (4278419646001971 / 2 ^ 40) \<and>
   dpi64 rounding_inputs = Fin 254 \<and>
   sensorPx64 rounding_inputs = Fin 6144 \<and>
   overlap64 rounding_inputs = Fin (3602879701896397 / 2 ^ 56) \<and>
   pxNeededWithMargin64 (calc64 rounding_inputs) = Fin (5615425785377587 / 2 ^ 37) \<and>
   quotient64 rounding_inputs = Fin (7881299347898369 / 2 ^ 50) \<and>
   camsRequired64 (calc64 rounding_inputs) = Fin 8 \<and>
   \<not> (8 < (5615425785377587 / 2 ^ 37) / (6144 * (1 - 3602879701896397 / 2 ^ 56)) + (1::real)) \<and>
   num_add (quotient64 rounding_inputs) (Fin 1) = Fin 8"
proof -
  have "num_add (quotient64 rounding_inputs) (Fin 1) = Fin 8"
    by (simp only: ri_quotient ri_q1)
  moreover
  have "widthMm64 rounding_inputs = Fin (4278419646001971 / 2 ^ 40)"
    by (simp only: rounding_inputs_def Inputs64.select_convs ri_w)
  moreover have "overlap64 rounding_inputs = Fin (3602879701896397 / 2 ^ 56)"
    by (simp only: rounding_inputs_def Inputs64.select_convs ri_o)
  moreover have "dpi64 rounding_inputs = Fin 254" "sensorPx64 rounding_inputs = Fin 6144"
    by (simp_all add: rounding_inputs_def)
  moreover have "\<not> (8 < (5615425785377587 / 2 ^ 37) / (6144 * (1 - 3602879701896397 / 2 ^ 56)) + (1::real))"
    by simp
  ultimately show ?thesis
    using ri_pxNeededWithMargin ri_camsRequired ri_quotient by blast
qed

text \<open>
  Claim C9, amended. For inputs with width and dpi between 2^-300 and 2^300, a sensor
  pixel count from 1 to 2^300 and an overlap from 0 up to the last binary64 number below 1,
  camsRequired is an integer and at least 1.
\<close>

theorem camsRequired64_ge_1:
  assumes "in_interval (2 powi (- 300)) (2 powi 300) (widthMm64 i)"
    and "in_interval (2 powi (- 300)) (2 powi 300) (dpi64 i)"
    and "in_interval (2 powi 0) (2 powi 300) (sensorPx64 i)"
    and "overlap64 i = Fin v" and "0 \<le> v" and "v \<le> 1 - 1 / 2 ^ 53"
  shows "\<exists>n::int. camsRequired64 (calc64 i) = Fin (of_int n) \<and> 1 \<le> n"
proof -
  from quotient64_in_interval[OF assms] obtain x where q: "quotient64 i = Fin x"
    and x: "2 powi (- 905) \<le> x" by (rule in_intervalE)
  have "0 < (2::real) powi (- 905)" by (rule zero_less_power_int) simp
  with x have xp: "0 < x" by linarith
  then have "0 < \<lceil>x\<rceil>" by simp
  then have c: "1 \<le> \<lceil>x\<rceil>" by linarith
  have "camsRequired64 (calc64 i) = Fin (of_int \<lceil>x\<rceil>)"
    using xp by (simp add: calc64_camsRequired q num_ceil_def)
  with c show ?thesis by blast
qed

theorem camsRequired64_ge_1_witness:
  "in_interval (2 powi (- 300)) (2 powi 300) (widthMm64 example_inputs64) \<and>
   in_interval (2 powi (- 300)) (2 powi 300) (dpi64 example_inputs64) \<and>
   in_interval (2 powi 0) (2 powi 300) (sensorPx64 example_inputs64) \<and>
   overlap64 example_inputs64 = Fin (1080863910568919 / 2 ^ 53) \<and>
   (0::real) \<le> 1080863910568919 / 2 ^ 53 \<and>
   (1080863910568919 / 2 ^ 53 :: real) \<le> 1 - 1 / 2 ^ 53 \<and>
   (\<exists>n::int. camsRequired64 (calc64 example_inputs64) = Fin (of_int n) \<and> 1 \<le> n)"
proof -
  have w: "in_interval (2 powi (- 300)) (2 powi 300) (widthMm64 example_inputs64)"
    and d: "in_interval (2 powi (- 300)) (2 powi 300) (dpi64 example_inputs64)"
    and s: "in_interval (2 powi 0) (2 powi 300) (sensorPx64 example_inputs64)"
    by (simp_all add: example_inputs64_def)
  have o: "overlap64 example_inputs64 = Fin (1080863910568919 / 2 ^ 53)"
    by (simp only: example_inputs64_def Inputs64.select_convs lit_012)
  have v: "(0::real) \<le> 1080863910568919 / 2 ^ 53"
    "(1080863910568919 / 2 ^ 53 :: real) \<le> 1 - 1 / 2 ^ 53"
    by simp_all
  from camsRequired64_ge_1[OF w d s o v] w d s o v show ?thesis by blast
qed

text \<open>
  The claim as stated fails on the example with dpi 2^-1024: every constraint holds and
  camsRequired is 0.
\<close>

theorem camsRequired_ge_1_counterexample:
  "widthMm64 tiny_dpi_inputs = Fin 1200 \<and> dpi64 tiny_dpi_inputs = Fin (2 powi (- 1024)) \<and>
   (0::real) < 2 powi (- 1024) \<and> sensorPx64 tiny_dpi_inputs = Fin 8192 \<and>
   overlap64 tiny_dpi_inputs = Fin 0.125 \<and>
   camsRequired64 (calc64 tiny_dpi_inputs) = Fin 0 \<and> \<not> (1::real) \<le> 0"
proof -
  have "(0::real) < 2 powi (- 1024)" by (rule powi_pos)
  moreover have "widthMm64 tiny_dpi_inputs = Fin 1200"
    "dpi64 tiny_dpi_inputs = Fin (2 powi (- 1024))"
    "sensorPx64 tiny_dpi_inputs = Fin 8192" "overlap64 tiny_dpi_inputs = Fin 0.125"
    by (simp_all only: tiny_dpi_inputs_def Inputs64.select_convs)
  ultimately show ?thesis using tiny_camsRequired by simp
qed

section \<open>The DPI round trip in binary64\<close>

text \<open>
  Claim C5, amended. For inputs with dpi between 2^-1018 and 2^1022, eqDpi is finite and
  within a relative tolerance of 1e-9 of dpi.
\<close>

theorem eqDpi64_round_trip:
  assumes "dpi64 i = Fin d" and "2 powi (- 1018) \<le> d" and "d \<le> 2 powi 1022"
  shows "\<exists>e. eqDpi64 (calc64 i) = Fin e \<and> \<bar>e - d\<bar> \<le> d / 10 ^ 9"
proof -
  from mmPerInch64_in_interval obtain c where c: "mmPerInch64 = Fin c"
    and c4: "2 powi 4 \<le> c" and c5: "c \<le> 2 powi 5" by (rule in_intervalE)
  have cp: "0 < c" using c4 powi_pos[of 4] by linarith
  have dp: "0 < d" using assms(2) powi_pos[of "- 1018"] by linarith
  \<comment> \<open>the pixel size\<close>
  note b1 = quot_bounds[OF c4 c5 assms(2,3)]
  from fl_rel_error[OF b1, of False] obtain p where p: "fl False (c / d) = Fin p"
    and plo: "2 powi (4 - 1022) \<le> p" and perr: "\<bar>p - c / d\<bar> \<le> (c / d) / 2 ^ 53"
    by auto
  have pp: "0 < p" using plo powi_pos[of "4 - 1022"] by linarith
  have size: "num_div mmPerInch64 (dpi64 i) = Fin p"
    by (simp only: c assms(1) num_div_pos[OF cp dp] p)
  have cd: "0 < c / d" using cp dp by simp
  from rel_error_factor[OF cd perr] obtain e1 where pe: "p = c / d * (1 + e1)"
    and e1: "\<bar>e1\<bar> \<le> 1 / 2 ^ 53" by blast
  have u: "(1::real) / 2 ^ 53 \<le> 1 / 2" by simp
  have e1b: "2 powi (- 1) \<le> 1 + e1" "1 + e1 \<le> 2 powi 1" using e1 u by simp_all
  have e1p: "0 < 1 + e1" using e1b(1) powi_pos[of "- 1"] by linarith
  \<comment> \<open>the quotient that gives eqDpi\<close>
  have nz: "c \<noteq> 0" "d \<noteq> 0" "1 + e1 \<noteq> 0"
    using cp dp e1p by simp_all
  have "c / (c / d * (1 + e1)) = d / (1 + e1)"
    using nz by (simp add: divide_simps)
  then have x2: "c / p = d / (1 + e1)"
    by (simp only: pe)
  note b2 = quot_bounds[OF assms(2,3) e1b, folded x2]
  from fl_rel_error[OF b2, of False] obtain e where e: "fl False (c / p) = Fin e"
    and eerr: "\<bar>e - c / p\<bar> \<le> (c / p) / 2 ^ 53"
    by auto
  have "eqDpi64 (calc64 i) = num_div mmPerInch64 (Fin p)"
    by (simp only: calc64_eqDpi size)
  also have "\<dots> = fl False (c / p)"
    by (simp only: c num_div_pos[OF cp pp])
  finally have eq: "eqDpi64 (calc64 i) = Fin e"
    by (simp only: e)
  have cpp: "0 < c / p" using cp pp by simp
  from rel_error_factor[OF cpp eerr] obtain e2 where "e = c / p * (1 + e2)"
    and e2: "\<bar>e2\<bar> \<le> 1 / 2 ^ 53" by blast
  then have "e = d * (1 + e2) / (1 + e1)"
    by (simp add: x2)
  with round_trip_error[OF dp e1 e2] have "\<bar>e - d\<bar> \<le> d / 10 ^ 9" by simp
  with eq show ?thesis by blast
qed

theorem eqDpi64_round_trip_witness:
  "dpi64 example_inputs64 = Fin 250 \<and> 2 powi (- 1018) \<le> (250::real) \<and>
   (250::real) \<le> 2 powi 1022 \<and>
   (\<exists>e. eqDpi64 (calc64 example_inputs64) = Fin e \<and> \<bar>e - 250\<bar> \<le> 250 / 10 ^ 9)"
proof -
  have d: "dpi64 example_inputs64 = Fin 250"
    by (simp only: example_inputs64_def Inputs64.select_convs)
  have r: "2 powi (- 1018) \<le> (250::real)" "(250::real) \<le> 2 powi 1022"
    by simp_all
  from eqDpi64_round_trip[OF d r] d r show ?thesis by blast
qed

text \<open>
  The claim as stated fails at dpi 2^-1024, which is positive: the pixel size overflows and
  eqDpi is 0.
\<close>

theorem eqDpi_round_trip_counterexample:
  "dpi64 tiny_dpi_inputs = Fin (2 powi (- 1024)) \<and> (0::real) < 2 powi (- 1024) \<and>
   eqDpi64 (calc64 tiny_dpi_inputs) = Fin 0 \<and>
   \<not> \<bar>0 - 2 powi (- 1024)\<bar> \<le> (2 powi (- 1024) :: real) / 10 ^ 9"
proof -
  have "dpi64 tiny_dpi_inputs = Fin (2 powi (- 1024))"
    by (simp only: tiny_dpi_inputs_def Inputs64.select_convs)
  moreover have p: "(0::real) < 2 powi (- 1024)" by (rule powi_pos)
  moreover have "\<not> \<bar>0 - 2 powi (- 1024)\<bar> \<le> (2 powi (- 1024) :: real) / 10 ^ 9"
    using p by (rule outside_tolerance)
  ultimately show ?thesis using tiny_eqDpi by blast
qed

section \<open>Magnification and focal length in binary64\<close>

text \<open>
  Claim C10, amended. For inputs with width from 1 to 2^20, dpi from 2^-10 to 2^14, sensor
  pixel count from 1 to 2^16, pixel pitch from 2^-10 to 2^10, overlap from 0 to 1/2, cameras
  0 or from 1 to 2^32 and working distance from 2^-900 to 2^900, the magnification is finite
  and strictly positive, 1 plus the magnification as computed is greater than 1, and the
  focal length lies strictly between 0 and the working distance.
\<close>

theorem focalLengthMm64_bounds:
  assumes "in_interval (2 powi 0) (2 powi 20) (widthMm64 i)"
    and "in_interval (2 powi (- 10)) (2 powi 14) (dpi64 i)"
    and "in_interval (2 powi 0) (2 powi 16) (sensorPx64 i)"
    and "in_interval (2 powi (- 10)) (2 powi 10) (pixelPitchUm64 i)"
    and "overlap64 i = Fin v" and "0 \<le> v" and "v \<le> 1 / 2"
    and "cameras64 i = Fin 0 \<or> in_interval (2 powi 0) (2 powi 32) (cameras64 i)"
    and "wdMm64 i = Fin w" and "2 powi (- 900) \<le> w" and "w \<le> 2 powi 900"
  shows "\<exists>m b f. magnification64 (calc64 i) = Fin m \<and> 0 < m \<and>
           num_add (Fin 1) (magnification64 (calc64 i)) = Fin b \<and> 1 < b \<and>
           focalLengthMm64 (calc64 i) = Fin f \<and> 0 < f \<and> f < w"
proof -
  from magnification64_in_interval[OF assms(1-8)] obtain m
    where m: "magnification64 (calc64 i) = Fin m" "2 powi (- 41) \<le> m" "m \<le> 2 powi 49"
    by (rule in_intervalE)
  have mp: "0 < m" using m(2) powi_pos[of "- 41"] by linarith
  have "(2::real) powi (- 52) \<le> 2 powi (- 41)" by (intro power_int_increasing) simp_all
  with m(2) have lo: "2 powi (- 52) \<le> m" by linarith
  have "(2::real) powi 49 \<le> 2 powi 50" by (intro power_int_increasing) simp_all
  with m(3) have hi: "m \<le> 2 powi 50" by linarith
  from focal_core[OF lo hi assms(10,11)] obtain b f
    where "num_add (Fin 1) (Fin m) = Fin b" "1 < b"
      "num_div (num_mul (Fin m) (Fin w)) (Fin b) = Fin f" "0 < f" "f < w" by blast
  then show ?thesis
    using mp by (simp add: calc64_focalLengthMm m(1) assms(9))
qed

theorem focalLengthMm64_bounds_witness:
  "in_interval (2 powi 0) (2 powi 20) (widthMm64 example_inputs64) \<and>
   in_interval (2 powi (- 10)) (2 powi 14) (dpi64 example_inputs64) \<and>
   in_interval (2 powi 0) (2 powi 16) (sensorPx64 example_inputs64) \<and>
   in_interval (2 powi (- 10)) (2 powi 10) (pixelPitchUm64 example_inputs64) \<and>
   overlap64 example_inputs64 = Fin (1080863910568919 / 2 ^ 53) \<and>
   (0::real) \<le> 1080863910568919 / 2 ^ 53 \<and>
   (1080863910568919 / 2 ^ 53 :: real) \<le> 1 / 2 \<and>
   in_interval (2 powi 0) (2 powi 32) (cameras64 example_inputs64) \<and>
   wdMm64 example_inputs64 = Fin 600 \<and> 2 powi (- 900) \<le> (600::real) \<and>
   (600::real) \<le> 2 powi 900 \<and>
   (\<exists>m b f. magnification64 (calc64 example_inputs64) = Fin m \<and> 0 < m \<and>
      num_add (Fin 1) (magnification64 (calc64 example_inputs64)) = Fin b \<and> 1 < b \<and>
      focalLengthMm64 (calc64 example_inputs64) = Fin f \<and> 0 < f \<and> f < 600)"
proof -
  have w: "in_interval (2 powi 0) (2 powi 20) (widthMm64 example_inputs64)"
    and d: "in_interval (2 powi (- 10)) (2 powi 14) (dpi64 example_inputs64)"
    and s: "in_interval (2 powi 0) (2 powi 16) (sensorPx64 example_inputs64)"
    and p: "in_interval (2 powi (- 10)) (2 powi 10) (pixelPitchUm64 example_inputs64)"
    and c: "in_interval (2 powi 0) (2 powi 32) (cameras64 example_inputs64)"
    by (simp_all add: example_inputs64_def)
  have o: "overlap64 example_inputs64 = Fin (1080863910568919 / 2 ^ 53)"
    by (simp only: example_inputs64_def Inputs64.select_convs lit_012)
  have v: "(0::real) \<le> 1080863910568919 / 2 ^ 53"
    "(1080863910568919 / 2 ^ 53 :: real) \<le> 1 / 2"
    by simp_all
  have wd: "wdMm64 example_inputs64 = Fin 600"
    by (simp only: example_inputs64_def Inputs64.select_convs)
  have r: "2 powi (- 900) \<le> (600::real)" "(600::real) \<le> 2 powi 900"
    by simp_all
  from focalLengthMm64_bounds[OF w d s p o v disjI2[OF c] wd r] w d s p o v c wd r show ?thesis by blast
qed

text \<open>
  The claim as stated fails on an input that meets every constraint and has 2^60 cameras:
  adding 1 to the magnification returns the magnification, and the focal length equals the
  working distance 512.
\<close>

theorem focalLengthMm_bounds_counterexample:
  "wdMm64 many_cameras_inputs = Fin 512 \<and>
   cameras64 many_cameras_inputs = Fin (2 ^ 60) \<and>
   num_add (Fin 1) (magnification64 (calc64 many_cameras_inputs)) =
     magnification64 (calc64 many_cameras_inputs) \<and>
   focalLengthMm64 (calc64 many_cameras_inputs) = Fin 512 \<and> \<not> (512::real) < 512"
proof -
  have "fl False (1 + 2 ^ 60) = Fin (2 ^ 60)"
    using fl_eval[of 60 "1 + 2 ^ 60" "2 ^ 52" False] by simp
  then have b: "num_add (Fin 1) (Fin (2 ^ 60)) = Fin (2 ^ 60)"
    by (simp add: num_add_pos)
  have "wdMm64 many_cameras_inputs = Fin 512" "cameras64 many_cameras_inputs = Fin (2 ^ 60)"
    by (simp_all only: many_cameras_inputs_def Inputs64.select_convs)
  then show ?thesis
    using many_focalLengthMm b by (simp add: many_magnification)
qed

end
